theory Spec2Isabelle
  imports Main "HOL-Library.Sublist" "HOL-Library.AList"
begin

section \<open>Python strings\<close>

text \<open>
  A Python \<open>str\<close> is modelled as a \<open>string\<close> whose characters are the code points
  0..255 (the Latin-1 range of Unicode).  The classifications below are the ones
  Python's \<open>str\<close> methods use on that range; code points above 255 are outside
  the model.
\<close>

definition isspace :: "char \<Rightarrow> bool" where
  \<comment> \<open>\<open>str.isspace\<close> on one character: TAB, LF, VT, FF, CR, FS, GS, RS, US, SPACE, NEL, NBSP\<close>
  "isspace c = ((of_char c :: nat) \<in> {9, 10, 11, 12, 13, 28, 29, 30, 31, 32, 133, 160})"

definition is_linebreak :: "char \<Rightarrow> bool" where
  \<comment> \<open>the line boundaries of \<open>str.splitlines\<close>: LF, VT, FF, CR, FS, GS, RS, NEL\<close>
  "is_linebreak c = ((of_char c :: nat) \<in> {10, 11, 12, 13, 28, 29, 30, 133})"

definition is_digit :: "char \<Rightarrow> bool" where
  "is_digit c = (48 \<le> (of_char c :: nat) \<and> (of_char c :: nat) \<le> 57)"

definition lower_char :: "char \<Rightarrow> char" where
  "lower_char c =
     (let n = (of_char c :: nat)
      in if (65 \<le> n \<and> n \<le> 90) \<or> (192 \<le> n \<and> n \<le> 222 \<and> n \<noteq> 215)
         then char_of (n + 32) else c)"

definition lower :: "string \<Rightarrow> string" where
  "lower s = map lower_char s"

definition strip :: "string \<Rightarrow> string" where
  \<comment> \<open>\<open>s.strip()\<close>\<close>
  "strip s = rev (dropWhile isspace (rev (dropWhile isspace s)))"

definition lstrip :: "string \<Rightarrow> string \<Rightarrow> string" where
  \<comment> \<open>\<open>s.lstrip(chars)\<close>\<close>
  "lstrip chars s = dropWhile (\<lambda>c. c \<in> set chars) s"

definition isdecimal :: "string \<Rightarrow> bool" where
  \<comment> \<open>\<open>s.isdecimal()\<close>: non-empty and every character a decimal digit\<close>
  "isdecimal s = (s \<noteq> [] \<and> list_all is_digit s)"

definition startswith :: "string \<Rightarrow> char \<Rightarrow> bool" where
  \<comment> \<open>\<open>s.startswith(p)\<close> for a one-character \<open>p\<close>\<close>
  "startswith s p = (case s of [] \<Rightarrow> False | c # _ \<Rightarrow> c = p)"

fun contains :: "string \<Rightarrow> string \<Rightarrow> bool" where
  \<comment> \<open>\<open>sub in s\<close>\<close>
  "contains sub [] = (sub = [])"
| "contains sub (c # cs) = (prefix sub (c # cs) \<or> contains sub cs)"

function replace_del :: "string \<Rightarrow> string \<Rightarrow> string" where
  \<comment> \<open>\<open>s.replace(old, "")\<close>: the occurrences of \<open>old\<close>, left to right and not
      overlapping, are removed; an empty \<open>old\<close> changes nothing\<close>
  "replace_del old [] = []"
| "replace_del old (c # cs) =
     (if old \<noteq> [] \<and> prefix old (c # cs)
      then replace_del old (drop (length old) (c # cs))
      else c # replace_del old cs)"
  by pat_completeness auto
termination
  by (relation "measure (\<lambda>(old, s). length s)") (auto simp: neq_Nil_conv)

function split_on :: "string \<Rightarrow> string \<Rightarrow> string \<Rightarrow> string list" where
  \<comment> \<open>the pieces of \<open>s.split(sep)\<close> for a non-empty \<open>sep\<close>; \<open>acc\<close> is the piece being read\<close>
  "split_on sep acc [] = [acc]"
| "split_on sep acc (c # cs) =
     (if sep \<noteq> [] \<and> prefix sep (c # cs)
      then acc # split_on sep [] (drop (length sep) (c # cs))
      else split_on sep (acc @ [c]) cs)"
  by pat_completeness auto
termination
  by (relation "measure (\<lambda>(sep, acc, s). length s)") (auto simp: neq_Nil_conv)

fun partition_on :: "string \<Rightarrow> string \<Rightarrow> string \<Rightarrow> (string \<times> string) option" where
  \<comment> \<open>the text before and after the first occurrence of \<open>sep\<close>, if there is one\<close>
  "partition_on sep acc [] = None"
| "partition_on sep acc (c # cs) =
     (if prefix sep (c # cs) then Some (acc, drop (length sep) (c # cs))
      else partition_on sep (acc @ [c]) cs)"

fun splitlines_from :: "string \<Rightarrow> string \<Rightarrow> string list" where
  "splitlines_from acc [] = (if acc = [] then [] else [acc])"
| "splitlines_from acc (c # cs) =
     (if c = CHR 0x0D \<and> (case cs of [] \<Rightarrow> False | d # _ \<Rightarrow> d = CHR 0x0A)
      then acc # splitlines_from [] (tl cs)
      else if is_linebreak c then acc # splitlines_from [] cs
      else splitlines_from (acc @ [c]) cs)"

definition splitlines :: "string \<Rightarrow> string list" where
  \<comment> \<open>\<open>s.splitlines()\<close>: CR LF is one boundary, no empty last line\<close>
  "splitlines s = splitlines_from [] s"

section \<open>Values, exceptions and the log\<close>

text \<open>
  A Python \<open>float\<close> is kept as the decimal literal it was read from (sign, digits,
  decimal exponent), or an infinity, or NaN: rounding to binary64 is not modelled.
\<close>

datatype pyfloat = FNan | FInf bool | FFinite bool nat int

text \<open>
  Values stored in a container or returned by a transformation: plain Python values
  and document nodes.

  Modelled from the spec: the document nodes of \<open>toml_adapter\<close>, which is not part of
  the sources.  A node carries an optional trailing comment; \<open>TItem\<close> is the node made
  from a plain value, \<open>TComment\<close> a full-line comment, \<open>TArray\<close> an array (multiline
  flag, entries, comment) and \<open>TTable\<close> a table or inline table (\<open>True\<close> for a
  multi-line table; entries keyed by \<open>Some key\<close>, or \<open>None\<close> for a full-line comment;
  comment).
\<close>

datatype pyval =
    PNone
  | PBool bool
  | PInt int
  | PFloat pyfloat
  | PStr string
  | PList "pyval list"
  | PDict "(string \<times> pyval) list"
  | TItem pyval "string option"
  | TComment string
  | TArray bool "pyval list" "string option"
  | TTable bool "(string option \<times> pyval) list" "string option"

datatype exn =
    KeyError string
  | TypeError string
  | IndexError
  | StopIteration
  | AttributeError string
  | ValueError_empty_separator
  | ValueError_unpack
  | ValueError_float string
  | ValueError_bool string
  | ValueError_cannot_apply pyval string
  | OtherException string
  | NonException string

fun is_Exception :: "exn \<Rightarrow> bool" where
  \<comment> \<open>what \<open>except Exception\<close> catches: everything but the direct subclasses of
      \<open>BaseException\<close> (\<open>KeyboardInterrupt\<close>, \<open>SystemExit\<close>, \<open>GeneratorExit\<close>)\<close>
  "is_Exception (NonException _) = False"
| "is_Exception _ = True"

definition py_split :: "string \<Rightarrow> string \<Rightarrow> exn + string list" where
  \<comment> \<open>\<open>s.split(sep)\<close>\<close>
  "py_split s sep = (if sep = [] then Inl ValueError_empty_separator else Inr (split_on sep [] s))"

definition py_split1 :: "string \<Rightarrow> string \<Rightarrow> exn + string list" where
  \<comment> \<open>\<open>s.split(sep, maxsplit=1)\<close>\<close>
  "py_split1 s sep =
     (if sep = [] then Inl ValueError_empty_separator
      else Inr (case partition_on sep [] s of None \<Rightarrow> [s] | Some (a, b) \<Rightarrow> [a, b]))"

section \<open>Simple value processors\<close>

definition is_true :: "string \<Rightarrow> bool" where
  "is_true v = (lower v \<in> set [''true'', ''1'', ''yes'', ''on''])"

definition is_false :: "string \<Rightarrow> bool" where
  "is_false v = (lower v \<in> set [''false'', ''0'', ''no'', ''off'', ''none'', ''null'', ''nil''])"

definition is_float :: "string \<Rightarrow> bool" where
  "is_float v =
     (let cleaned = replace_del ''_'' (replace_del ''.'' (lstrip ''+-'' (lower v)))
      in (isdecimal cleaned \<and> count_list v (CHR ''.'') \<le> 1) \<or> cleaned \<in> set [''inf'', ''nan''])"

definition coerce_bool :: "string \<Rightarrow> exn + bool" where
  "coerce_bool v =
     (if is_true v then Inr True
      else if is_false v then Inr False
      else Inl (ValueError_bool v))"

definition digit_val :: "char \<Rightarrow> nat" where
  "digit_val c = of_char c - 48"

definition nat_of_digits :: "string \<Rightarrow> nat" where
  "nat_of_digits s = foldl (\<lambda>a c. 10 * a + digit_val c) 0 s"

definition py_int :: "string \<Rightarrow> int" where
  \<comment> \<open>\<open>int(s)\<close> on a string for which \<open>isdecimal\<close> holds\<close>
  "py_int s = int (nat_of_digits s)"

fun underscores_ok :: "char option \<Rightarrow> string \<Rightarrow> bool" where
  \<comment> \<open>in a numeric literal an underscore stands between two digits\<close>
  "underscores_ok prev [] = True"
| "underscores_ok prev (c # cs) =
     (if c = CHR ''_''
      then (case prev of None \<Rightarrow> False | Some p \<Rightarrow> is_digit p)
           \<and> (case cs of [] \<Rightarrow> False | n # _ \<Rightarrow> is_digit n)
           \<and> underscores_ok (Some c) cs
      else underscores_ok (Some c) cs)"

definition split_sign :: "string \<Rightarrow> bool \<times> string" where
  \<comment> \<open>one optional sign; \<open>True\<close> for a minus\<close>
  "split_sign s =
     (case s of [] \<Rightarrow> (False, [])
      | c # cs \<Rightarrow> if c = CHR ''-'' then (True, cs) else if c = CHR ''+'' then (False, cs) else (False, s))"

definition parse_exponent :: "string \<Rightarrow> int option" where
  \<comment> \<open>the text after the mantissa: nothing, or \<open>e\<close>, an optional sign and digits\<close>
  "parse_exponent s =
     (case s of [] \<Rightarrow> Some 0
      | c # cs \<Rightarrow>
          if c = CHR ''e'' \<or> c = CHR ''E''
          then (case split_sign cs of (neg, ds) \<Rightarrow>
                  if isdecimal ds
                  then Some (if neg then - int (nat_of_digits ds) else int (nat_of_digits ds))
                  else None)
          else None)"

definition parse_number :: "bool \<Rightarrow> string \<Rightarrow> pyfloat option" where
  \<comment> \<open>digits, an optional point and digits, an optional exponent; a digit is required\<close>
  "parse_number neg s =
     (let ip = takeWhile is_digit s;
          r1 = dropWhile is_digit s;
          has_point = (case r1 of [] \<Rightarrow> False | c # _ \<Rightarrow> c = CHR ''.'');
          fp = (if has_point then takeWhile is_digit (tl r1) else []);
          r2 = (if has_point then dropWhile is_digit (tl r1) else r1)
      in if ip @ fp = [] then None
         else (case parse_exponent r2 of
                 None \<Rightarrow> None
               | Some e \<Rightarrow> Some (FFinite neg (nat_of_digits (ip @ fp)) (e - int (length fp)))))"

definition py_float :: "string \<Rightarrow> exn + pyfloat" where
  \<comment> \<open>\<open>float(s)\<close>: surrounding whitespace is ignored, underscores stand between
      digits, then a sign and \<open>inf\<close>, \<open>infinity\<close>, \<open>nan\<close> or a decimal number\<close>
  "py_float s =
     (let t = strip s
      in if \<not> underscores_ok None t then Inl (ValueError_float s)
         else (case split_sign (filter (\<lambda>c. c \<noteq> CHR ''_'') t) of (neg, r) \<Rightarrow>
                 if lower r \<in> set [''inf'', ''infinity''] then Inr (FInf neg)
                 else if lower r = ''nan'' then Inr FNan
                 else (case parse_number neg r of
                         None \<Rightarrow> Inl (ValueError_float s)
                       | Some f \<Rightarrow> Inr f)))"

definition coerce_scalar :: "string \<Rightarrow> exn + pyval" where
  "coerce_scalar v0 =
     (let v = strip v0
      in if isdecimal v then Inr (PInt (py_int v))
         else if is_float v then (case py_float v of Inl e \<Rightarrow> Inl e | Inr f \<Rightarrow> Inr (PFloat f))
         else if is_true v then Inr (PBool True)
         else if is_false v then Inr (PBool False)
         else Inr (PStr v))"

definition kebab_case :: "string \<Rightarrow> string" where
  "kebab_case f = map (\<lambda>c. if c = CHR ''_'' then CHR ''-'' else c) (lower f)"

section \<open>Intermediate representations\<close>

text \<open>
  \<open>Commented\<close>: a value, or none (the \<open>NOT_GIVEN\<close> marker), and an optional comment.
  \<open>CommentedList\<close> and \<open>CommentedKV\<close>: one entry for each line, and the comment
  attribute that \<open>__init__\<close> sets to \<open>None\<close>.
\<close>

record 'a Commented =
  c_value :: "'a option"
  c_comment :: "string option"

record 'a CommentedList =
  cl_data :: "'a list Commented list"
  cl_comment :: "string option"

record 'a CommentedKV =
  kv_data :: "(string \<times> 'a) list Commented list"
  kv_comment :: "string option"

definition comment_only :: "'a Commented \<Rightarrow> bool" where
  "comment_only e = (c_value e = None)"

definition has_comment :: "'a Commented \<Rightarrow> bool" where
  \<comment> \<open>\<open>bool(self.comment)\<close>: \<open>None\<close> and the empty string are no comment\<close>
  "has_comment e = (case c_comment e of None \<Rightarrow> False | Some c \<Rightarrow> c \<noteq> [])"

definition value_or :: "'a Commented \<Rightarrow> 'a \<Rightarrow> 'a" where
  "value_or e fallback = (case c_value e of None \<Rightarrow> fallback | Some v \<Rightarrow> v)"

section \<open>Complex value processors\<close>

fun mapM :: "('a \<Rightarrow> 'e + 'b) \<Rightarrow> 'a list \<Rightarrow> 'e + 'b list" where
  \<comment> \<open>a comprehension whose body may raise: the first exception ends it\<close>
  "mapM f [] = Inr []"
| "mapM f (x # xs) =
     (case f x of
        Inl e \<Rightarrow> Inl e
      | Inr y \<Rightarrow> (case mapM f xs of Inl e \<Rightarrow> Inl e | Inr ys \<Rightarrow> Inr (y # ys)))"

definition split_in_2 :: "string \<Rightarrow> string \<Rightarrow> exn + (string \<times> string option)" where
  "split_in_2 v sep =
     (case py_split1 v sep of
        Inl e \<Rightarrow> Inl e
      | Inr [] \<Rightarrow> Inl StopIteration
      | Inr (first # rest) \<Rightarrow> Inr (first, case rest of [] \<Rightarrow> None | second # _ \<Rightarrow> Some second))"

definition strip_comment :: "string option \<Rightarrow> string \<Rightarrow> string option" where
  "strip_comment msg pfxs =
     (case msg of
        None \<Rightarrow> None
      | Some m \<Rightarrow> if m = [] then None else Some (strip (lstrip pfxs (strip m))))"

definition split_comment :: "string \<Rightarrow> (string \<Rightarrow> exn + 'a) \<Rightarrow> string \<Rightarrow> exn + 'a Commented" where
  \<comment> \<open>the branch for a \<open>str\<close> argument; \<open>comment_prefixes\<close> is a string, iterated by character\<close>
  "split_comment value0 coerce_fn comment_prefixes =
     (let v = strip value0;
          pfxs = filter (\<lambda>p. contains [p] v) comment_prefixes
      in if pfxs = [] \<or> length (splitlines v) > 1
         then (case coerce_fn v of
                 Inl e \<Rightarrow> Inl e
               | Inr x \<Rightarrow> Inr \<lparr>c_value = Some x, c_comment = None\<rparr>)
         else if list_ex (startswith v) comment_prefixes
         then Inr \<lparr>c_value = None, c_comment = strip_comment (Some v) comment_prefixes\<rparr>
         else (case pfxs of
                 [] \<Rightarrow> Inl IndexError
               | p # _ \<Rightarrow>
                   (case split_in_2 v [p] of
                      Inl e \<Rightarrow> Inl e
                    | Inr (v1, cmt) \<Rightarrow>
                        (case coerce_fn (strip v1) of
                           Inl e \<Rightarrow> Inl e
                         | Inr x \<Rightarrow> Inr \<lparr>c_value = Some x,
                                          c_comment = strip_comment cmt comment_prefixes\<rparr>))))"

definition noop :: "'a \<Rightarrow> exn + 'a" where
  \<comment> \<open>the identity, as a transformation that never raises\<close>
  "noop x = Inr x"

definition split_scalar :: "string \<Rightarrow> string \<Rightarrow> exn + pyval Commented" where
  "split_scalar v comment_prefixes = split_comment v coerce_scalar comment_prefixes"

definition split_items :: "string \<Rightarrow> (string \<Rightarrow> exn + 'a) \<Rightarrow> string \<Rightarrow> exn + 'a list" where
  \<comment> \<open>the inner \<open>_split\<close> of \<open>split_list\<close>\<close>
  "split_items sep coerce_fn line =
     (case py_split line sep of
        Inl e \<Rightarrow> Inl e
      | Inr vs \<Rightarrow> mapM (\<lambda>v. coerce_fn (strip v)) (filter (\<lambda>v. v \<noteq> []) vs))"

definition split_list ::
  "string \<Rightarrow> string \<Rightarrow> (string \<Rightarrow> exn + 'a) \<Rightarrow> bool \<Rightarrow> string \<Rightarrow> exn + 'a CommentedList" where
  \<comment> \<open>the branch for a \<open>str\<close> argument\<close>
  "split_list value0 sep0 coerce_fn subsplit_dangling comment_prefixes0 =
     (let comment_prefixes = replace_del sep0 comment_prefixes0;
          vals = splitlines (strip value0);
          sep = (if \<not> subsplit_dangling \<and> length vals > 1 then sep0 @ [CHR 0x0A] else sep0)
      in case mapM (\<lambda>v. split_comment v (split_items sep coerce_fn) comment_prefixes) vals of
           Inl e \<Rightarrow> Inl e
         | Inr es \<Rightarrow> Inr \<lparr>cl_data = es, cl_comment = None\<rparr>)"

definition split_kv_item :: "string \<Rightarrow> (string \<Rightarrow> exn + 'a) \<Rightarrow> string \<Rightarrow> exn + (string \<times> 'a)" where
  \<comment> \<open>one pair of \<open>_split_kv\<close>: split once at \<open>key_sep\<close>, unpack, trim, coerce the value\<close>
  "split_kv_item key_sep coerce_fn itm =
     (case py_split1 itm key_sep of
        Inl e \<Rightarrow> Inl e
      | Inr [k, v] \<Rightarrow> (case coerce_fn (strip v) of Inl e \<Rightarrow> Inl e | Inr x \<Rightarrow> Inr (strip k, x))
      | Inr _ \<Rightarrow> Inl ValueError_unpack)"

definition split_kv ::
  "string \<Rightarrow> string \<Rightarrow> (string \<Rightarrow> exn + 'a) \<Rightarrow> string \<Rightarrow> exn + (string \<times> 'a) list" where
  \<comment> \<open>the inner \<open>_split_kv\<close> of \<open>split_kv_pairs\<close>\<close>
  "split_kv key_sep pair_sep coerce_fn line =
     (case py_split (strip line) pair_sep of
        Inl e \<Rightarrow> Inl e
      | Inr items \<Rightarrow>
          mapM (split_kv_item key_sep coerce_fn) (filter (\<lambda>itm. contains key_sep itm) items))"

definition split_kv_pairs ::
  "string \<Rightarrow> string \<Rightarrow> (string \<Rightarrow> exn + 'a) \<Rightarrow> string \<Rightarrow> bool \<Rightarrow> string \<Rightarrow> exn + 'a CommentedKV" where
  "split_kv_pairs value0 key_sep coerce_fn pair_sep0 subsplit_dangling comment_prefixes0 =
     (let comment_prefixes = replace_del pair_sep0 (replace_del key_sep comment_prefixes0);
          vals = splitlines (strip value0);
          pair_sep = (if \<not> subsplit_dangling \<and> length vals > 1 then pair_sep0 @ [CHR 0x0A]
                      else pair_sep0)
      in case mapM (\<lambda>v. split_comment v (split_kv key_sep pair_sep coerce_fn) comment_prefixes) vals of
           Inl e \<Rightarrow> Inl e
         | Inr es \<Rightarrow> Inr \<lparr>kv_data = es, kv_comment = None\<rparr>)"

section \<open>Document nodes\<close>

text \<open>
  Modelled from the spec: the operations of \<open>toml_adapter\<close> (\<open>item\<close>, \<open>comment\<close>,
  \<open>array\<close>, \<open>table\<close>, \<open>inline_table\<close> and the node method \<open>comment\<close>), which are not
  part of the sources.  \<open>item\<close> makes a node of a plain value and leaves a node as it
  is; attaching a comment to a node sets its trailing comment; a table assignment
  replaces the node under an existing key in place and appends a new key at the end.
\<close>

fun is_node :: "pyval \<Rightarrow> bool" where
  \<comment> \<open>also \<open>hasattr(obj, "comment")\<close>: the nodes are the values with a \<open>comment\<close> method\<close>
  "is_node (TItem _ _) = True"
| "is_node (TComment _) = True"
| "is_node (TArray _ _ _) = True"
| "is_node (TTable _ _ _) = True"
| "is_node _ = False"

definition item :: "pyval \<Rightarrow> pyval" where
  "item v = (if is_node v then v else TItem v None)"

fun attach_comment :: "pyval \<Rightarrow> string \<Rightarrow> exn + pyval" where
  \<comment> \<open>\<open>node.comment(c)\<close>\<close>
  "attach_comment (TItem v _) c = Inr (TItem v (Some c))"
| "attach_comment (TComment _) c = Inr (TComment c)"
| "attach_comment (TArray ml xs _) c = Inr (TArray ml xs (Some c))"
| "attach_comment (TTable ml es _) c = Inr (TTable ml es (Some c))"
| "attach_comment _ c = Inl (AttributeError ''comment'')"

definition create_item :: "pyval \<Rightarrow> string option \<Rightarrow> exn + pyval" where
  "create_item v cmt =
     (let obj = item v
      in case cmt of None \<Rightarrow> Inr obj | Some c \<Rightarrow> attach_comment obj c)"

definition add_comment_array_last_item :: "pyval list \<Rightarrow> string \<Rightarrow> exn + pyval list" where
  \<comment> \<open>on the entries of the array: \<open>toml_array[-1].comment(cmt)\<close>\<close>
  "add_comment_array_last_item xs cmt =
     (if xs = [] then Inl IndexError
      else (case attach_comment (last xs) cmt of
              Inl e \<Rightarrow> Inl e
            | Inr l \<Rightarrow> Inr (butlast xs @ [l])))"

definition add_comment_array_entire_line :: "pyval list \<Rightarrow> string \<Rightarrow> pyval list" where
  \<comment> \<open>on the entries of the array: a full-line comment is appended\<close>
  "add_comment_array_entire_line xs cmt_msg = xs @ [TComment cmt_msg]"

section \<open>Materialization\<close>

definition as_toml_obj_commented :: "pyval Commented \<Rightarrow> exn + pyval" where
  \<comment> \<open>\<open>Commented.as_toml_obj\<close>, with the default value \<open>""\<close>\<close>
  "as_toml_obj_commented e = create_item (value_or e (PStr [])) (c_comment e)"

fun list_loop ::
  "pyval CommentedList \<Rightarrow> bool \<Rightarrow> pyval list \<Rightarrow> pyval list Commented list
     \<Rightarrow> exn + (pyval \<times> pyval CommentedList)" where
  \<comment> \<open>the \<open>for\<close> loop of \<open>CommentedList.as_toml_obj\<close>: \<open>self\<close>, the multiline flag, the
      entries of \<open>out\<close> so far, the entries of \<open>self.data\<close> still to do\<close>
  "list_loop self multiline out [] = Inr (TArray multiline out None, self)"
| "list_loop self multiline out (entry # rest) =
     (let vals = value_or entry [];
          out1 = out @ map item vals
      in if \<not> has_comment entry then list_loop self multiline out1 rest
         else (case c_comment entry of
                 None \<Rightarrow> list_loop self multiline out1 rest
               | Some cmt \<Rightarrow>
                   if \<not> multiline
                   then Inr (TArray multiline out1 (Some cmt), self\<lparr>cl_comment := Some cmt\<rparr>)
                   else if length vals > 0
                   then (case add_comment_array_last_item out1 cmt of
                           Inl e \<Rightarrow> Inl e
                         | Inr out2 \<Rightarrow> list_loop self multiline out2 rest)
                   else list_loop self multiline (add_comment_array_entire_line out1 cmt) rest))"

definition as_toml_obj_list :: "pyval CommentedList \<Rightarrow> exn + (pyval \<times> pyval CommentedList)" where
  \<comment> \<open>\<open>CommentedList.as_toml_obj\<close>: the node and \<open>self\<close> afterwards\<close>
  "as_toml_obj_list self = list_loop self (length (cl_data self) > 1) [] (cl_data self)"

definition table_assign :: "(string option \<times> pyval) list \<Rightarrow> string \<times> pyval \<Rightarrow> (string option \<times> pyval) list" where
  \<comment> \<open>\<open>out[k] = v\<close>\<close>
  "table_assign es kv = AList.update (Some (fst kv)) (item (snd kv)) es"

definition table_comment_at ::
  "(string option \<times> pyval) list \<Rightarrow> string \<Rightarrow> string \<Rightarrow> exn + (string option \<times> pyval) list" where
  \<comment> \<open>\<open>out[k].comment(cmt)\<close>\<close>
  "table_comment_at es k cmt =
     (case map_of es (Some k) of
        None \<Rightarrow> Inl (KeyError k)
      | Some n \<Rightarrow> (case attach_comment n cmt of
                     Inl e \<Rightarrow> Inl e
                   | Inr n' \<Rightarrow> Inr (AList.update (Some k) n' es)))"

definition last_key :: "(string \<times> pyval) list \<Rightarrow> string option" where
  \<comment> \<open>the variable \<open>k\<close> after the inner loop: \<open>None\<close>, or the key of the last pair\<close>
  "last_key pairs = (if pairs = [] then None else Some (fst (last pairs)))"

fun kv_loop ::
  "pyval CommentedKV \<Rightarrow> bool \<Rightarrow> (string option \<times> pyval) list
     \<Rightarrow> (string \<times> pyval) list Commented list \<Rightarrow> exn + (pyval \<times> pyval CommentedKV)" where
  \<comment> \<open>the \<open>for\<close> loop of \<open>CommentedKV.as_toml_obj\<close>.  The entry's pairs are
      two-element tuples, so the filter \<open>if v\<close> keeps them all and removes only the
      empty tuple of the fallback.\<close>
  "kv_loop self multiline out [] = Inr (TTable multiline out None, self)"
| "kv_loop self multiline out (entry # rest) =
     (let pairs = value_or entry [];
          k = last_key pairs;
          out1 = foldl table_assign out pairs
      in if \<not> has_comment entry then kv_loop self multiline out1 rest
         else (case c_comment entry of
                 None \<Rightarrow> kv_loop self multiline out1 rest
               | Some cmt \<Rightarrow>
                   if \<not> multiline
                   then Inr (TTable multiline out1 (Some cmt), self\<lparr>kv_comment := Some cmt\<rparr>)
                   else (case k of
                           Some key \<Rightarrow>
                             if key \<noteq> []
                             then (case table_comment_at out1 key cmt of
                                     Inl e \<Rightarrow> Inl e
                                   | Inr out2 \<Rightarrow> kv_loop self multiline out2 rest)
                             else kv_loop self multiline (out1 @ [(None, TComment cmt)]) rest
                         | None \<Rightarrow> kv_loop self multiline (out1 @ [(None, TComment cmt)]) rest)))"

definition as_toml_obj_kv :: "pyval CommentedKV \<Rightarrow> exn + (pyval \<times> pyval CommentedKV)" where
  \<comment> \<open>\<open>CommentedKV.as_toml_obj\<close>: the node and \<open>self\<close> afterwards\<close>
  "as_toml_obj_kv self = kv_loop self (length (kv_data self) > 1) [] (kv_data self)"

section \<open>Appliers\<close>

text \<open>What a transformation returns: a plain value, or an intermediate representation.\<close>

datatype processed =
    Plain pyval
  | PCommented "pyval Commented"
  | PCommentedList "pyval CommentedList"
  | PCommentedKV "pyval CommentedKV"

datatype level = WARNING | DEBUG

datatype log_msg =
    Impossible_to_transform pyval string
  | Please_check_details

type_synonym log = "(level \<times> log_msg) list"

fun class_name :: "pyval \<Rightarrow> string" where
  \<comment> \<open>\<open>value.__class__.__name__\<close>; the names of the node classes are modelled from the spec\<close>
  "class_name PNone = ''NoneType''"
| "class_name (PBool _) = ''bool''"
| "class_name (PInt _) = ''int''"
| "class_name (PFloat _) = ''float''"
| "class_name (PStr _) = ''str''"
| "class_name (PList _) = ''list''"
| "class_name (PDict _) = ''dict''"
| "class_name (TItem _ _) = ''Item''"
| "class_name (TComment _) = ''Comment''"
| "class_name (TArray _ _ _) = ''Array''"
| "class_name (TTable ml _ _) = (if ml then ''Table'' else ''InlineTable'')"

fun truthy :: "pyval \<Rightarrow> bool" where
  \<comment> \<open>\<open>bool(v)\<close>; a node made from a plain value is as true as that value\<close>
  "truthy PNone = False"
| "truthy (PBool b) = b"
| "truthy (PInt i) = (i \<noteq> 0)"
| "truthy (PFloat f) = (case f of FFinite _ m _ \<Rightarrow> m \<noteq> 0 | _ \<Rightarrow> True)"
| "truthy (PStr s) = (s \<noteq> [])"
| "truthy (PList xs) = (xs \<noteq> [])"
| "truthy (PDict kvs) = (kvs \<noteq> [])"
| "truthy (TItem v _) = truthy v"
| "truthy (TComment _) = True"
| "truthy (TArray _ xs _) = (xs \<noteq> [])"
| "truthy (TTable _ es _) = (es \<noteq> [])"

fun is_mapping :: "pyval \<Rightarrow> bool" where
  \<comment> \<open>\<open>isinstance(v, MutableMapping)\<close>\<close>
  "is_mapping (PDict _) = True"
| "is_mapping (TTable _ _ _) = True"
| "is_mapping _ = False"

fun getitem :: "pyval \<Rightarrow> string \<Rightarrow> exn + pyval" where
  \<comment> \<open>\<open>container[field]\<close>\<close>
  "getitem (PDict kvs) k = (case map_of kvs k of None \<Rightarrow> Inl (KeyError k) | Some v \<Rightarrow> Inr v)"
| "getitem (TTable _ es _) k = (case map_of es (Some k) of None \<Rightarrow> Inl (KeyError k) | Some v \<Rightarrow> Inr v)"
| "getitem v k = Inl (TypeError (class_name v))"

fun setitem :: "pyval \<Rightarrow> string \<Rightarrow> pyval \<Rightarrow> exn + pyval" where
  \<comment> \<open>\<open>container[field] = v\<close>: the container afterwards\<close>
  "setitem (PDict kvs) k v = Inr (PDict (AList.update k v kvs))"
| "setitem (TTable ml es c) k v = Inr (TTable ml (AList.update (Some k) (item v) es) c)"
| "setitem w k v = Inl (TypeError (class_name w))"

fun has_key :: "pyval \<Rightarrow> string \<Rightarrow> bool" where
  \<comment> \<open>\<open>k in mapping\<close>\<close>
  "has_key (PDict kvs) k = (map_of kvs k \<noteq> None)"
| "has_key (TTable _ es _) k = (map_of es (Some k) \<noteq> None)"
| "has_key _ k = False"

fun as_toml_obj :: "processed \<Rightarrow> exn + (pyval \<times> processed)" where
  \<comment> \<open>\<open>value.as_toml_obj()\<close> for the values that have the method: the node, and the
      value afterwards\<close>
  "as_toml_obj (Plain v) = Inl (AttributeError ''as_toml_obj'')"
| "as_toml_obj (PCommented e) =
     (case as_toml_obj_commented e of Inl x \<Rightarrow> Inl x | Inr obj \<Rightarrow> Inr (obj, PCommented e))"
| "as_toml_obj (PCommentedList l) =
     (case as_toml_obj_list l of Inl x \<Rightarrow> Inl x | Inr (obj, l') \<Rightarrow> Inr (obj, PCommentedList l'))"
| "as_toml_obj (PCommentedKV t) =
     (case as_toml_obj_kv t of Inl x \<Rightarrow> Inl x | Inr (obj, t') \<Rightarrow> Inr (obj, PCommentedKV t'))"

fun comment_attr :: "processed \<Rightarrow> string option" where
  \<comment> \<open>\<open>value.comment\<close> of an intermediate representation\<close>
  "comment_attr (Plain v) = None"
| "comment_attr (PCommented e) = c_comment e"
| "comment_attr (PCommentedList l) = cl_comment l"
| "comment_attr (PCommentedKV t) = kv_comment t"

definition add_to_container :: "pyval \<Rightarrow> string \<Rightarrow> processed \<Rightarrow> exn + pyval" where
  \<comment> \<open>\<open>_add_to_container\<close>: the container afterwards.  The node \<open>obj\<close> is the object
      stored under \<open>field\<close>, so the comment attached to it last is attached in the
      container.\<close>
  "add_to_container container field val =
     (case val of
        Plain v \<Rightarrow> setitem container field v
      | _ \<Rightarrow>
          (case as_toml_obj val of
             Inl e \<Rightarrow> Inl e
           | Inr (obj, val') \<Rightarrow>
               (case setitem container field obj of
                  Inl e \<Rightarrow> Inl e
                | Inr container1 \<Rightarrow>
                    (case comment_attr val' of
                       None \<Rightarrow> Inr container1
                     | Some cmt \<Rightarrow>
                         if is_node obj
                         then (case attach_comment obj cmt of
                                 Inl e \<Rightarrow> Inl e
                               | Inr obj' \<Rightarrow> setitem container1 field obj')
                         else Inr container1))))"

definition apply_tf ::
  "pyval \<Rightarrow> string \<Rightarrow> (pyval \<Rightarrow> exn + processed) \<Rightarrow> log \<Rightarrow> exn + (pyval \<times> log)" where
  \<comment> \<open>\<open>apply\<close>: the container and the log afterwards, or the exception that leaves it\<close>
  "apply_tf container field fn lg =
     (case getitem container field of
        Inl e \<Rightarrow> Inl e
      | Inr v \<Rightarrow>
          (case fn v of
             Inl e \<Rightarrow>
               if is_Exception e
               then Inr (container,
                         lg @ [(WARNING, Impossible_to_transform v (class_name v)),
                               (DEBUG, Please_check_details)])
               else Inl e
           | Inr p \<Rightarrow>
               (case add_to_container container field p of
                  Inl e \<Rightarrow> Inl e
                | Inr container' \<Rightarrow> Inr (container', lg))))"

fun get_nested :: "pyval \<Rightarrow> string list \<Rightarrow> pyval \<Rightarrow> exn + pyval" where
  \<comment> \<open>Modelled from the spec: \<open>get_nested\<close> of \<open>access\<close>, which is not part of the
      sources.  The segments are looked up one after the other; a missing key gives
      the default.\<close>
  "get_nested m [] dflt = Inr m"
| "get_nested m (k # ks) dflt =
     (case getitem m k of
        Inl (KeyError _) \<Rightarrow> Inr dflt
      | Inl e \<Rightarrow> Inl e
      | Inr v \<Rightarrow> get_nested v ks dflt)"

fun store_nested :: "pyval \<Rightarrow> string list \<Rightarrow> pyval \<Rightarrow> pyval" where
  \<comment> \<open>the container once the mapping reached by \<open>ks\<close> has been changed in place into \<open>v\<close>\<close>
  "store_nested m [] v = v"
| "store_nested (PDict kvs) (k # ks) v =
     (case map_of kvs k of
        None \<Rightarrow> PDict kvs
      | Some child \<Rightarrow> PDict (AList.update k (store_nested child ks v) kvs))"
| "store_nested (TTable ml es c) (k # ks) v =
     (case map_of es (Some k) of
        None \<Rightarrow> TTable ml es c
      | Some child \<Rightarrow> TTable ml (AList.update (Some k) (store_nested child ks v) es) c)"
| "store_nested m (k # ks) v = m"

definition apply_nested ::
  "pyval \<Rightarrow> string list \<Rightarrow> (pyval \<Rightarrow> exn + processed) \<Rightarrow> log \<Rightarrow> exn + (pyval \<times> log)" where
  "apply_nested container path fn lg =
     (if path = [] then Inl ValueError_unpack
      else (let parent = butlast path; lst = last path
            in case get_nested container parent PNone of
                 Inl e \<Rightarrow> Inl e
               | Inr nested \<Rightarrow>
                   if \<not> truthy nested then Inr (container, lg)
                   else if \<not> is_mapping nested
                   then Inl (ValueError_cannot_apply nested (class_name nested))
                   else if has_key nested lst
                   then (case apply_tf nested lst fn lg of
                           Inl e \<Rightarrow> Inl e
                         | Inr (nested', lg') \<Rightarrow> Inr (store_nested container parent nested', lg'))
                   else Inr (container, lg)))"

text \<open>
  The processors as they are called on a value read from a container.  In the model
  the \<open>str\<close> values are the \<open>PStr\<close> ones.  \<open>split_comment\<close> and \<open>split_list\<close> return
  any other value as it is; \<open>split_kv_pairs\<close> and \<open>coerce_bool\<close> call a \<open>str\<close> method
  on it at once.
\<close>

definition split_comment_any :: "(string \<Rightarrow> exn + pyval) \<Rightarrow> string \<Rightarrow> pyval \<Rightarrow> exn + processed" where
  "split_comment_any coerce_fn comment_prefixes v =
     (case v of
        PStr s \<Rightarrow> (case split_comment s coerce_fn comment_prefixes of
                     Inl e \<Rightarrow> Inl e | Inr r \<Rightarrow> Inr (PCommented r))
      | _ \<Rightarrow> Inr (Plain v))"

definition split_list_any ::
  "string \<Rightarrow> (string \<Rightarrow> exn + pyval) \<Rightarrow> bool \<Rightarrow> string \<Rightarrow> pyval \<Rightarrow> exn + processed" where
  "split_list_any sep coerce_fn subsplit_dangling comment_prefixes v =
     (case v of
        PStr s \<Rightarrow> (case split_list s sep coerce_fn subsplit_dangling comment_prefixes of
                     Inl e \<Rightarrow> Inl e | Inr r \<Rightarrow> Inr (PCommentedList r))
      | _ \<Rightarrow> Inr (Plain v))"

definition split_kv_pairs_any ::
  "string \<Rightarrow> (string \<Rightarrow> exn + pyval) \<Rightarrow> string \<Rightarrow> bool \<Rightarrow> string \<Rightarrow> pyval \<Rightarrow> exn + processed" where
  "split_kv_pairs_any key_sep coerce_fn pair_sep subsplit_dangling comment_prefixes v =
     (case v of
        PStr s \<Rightarrow> (case split_kv_pairs s key_sep coerce_fn pair_sep subsplit_dangling comment_prefixes of
                     Inl e \<Rightarrow> Inl e | Inr r \<Rightarrow> Inr (PCommentedKV r))
      | _ \<Rightarrow> Inl (AttributeError ''strip''))"

definition coerce_bool_any :: "pyval \<Rightarrow> exn + processed" where
  "coerce_bool_any v =
     (case v of
        PStr s \<Rightarrow> (case coerce_bool s of Inl e \<Rightarrow> Inl e | Inr b \<Rightarrow> Inr (Plain (PBool b)))
      | _ \<Rightarrow> Inl (AttributeError ''lower''))"

definition pstr :: "string \<Rightarrow> exn + pyval" where
  \<comment> \<open>\<open>noop\<close> on a string, as a value of the model\<close>
  "pstr s = Inr (PStr s)"

text \<open>
  The two cases a path can be in before its last segment: every segment is found, one
  mapping after the other, and \<open>resolve\<close> gives the value reached; or the lookups
  reach a mapping that lacks the next segment.
\<close>

fun resolve :: "pyval \<Rightarrow> string list \<Rightarrow> pyval option" where
  "resolve m [] = Some m"
| "resolve m (k # ks) =
     (if is_mapping m
      then (case getitem m k of Inl _ \<Rightarrow> None | Inr v \<Rightarrow> resolve v ks)
      else None)"

fun absent_segment :: "pyval \<Rightarrow> string list \<Rightarrow> bool" where
  "absent_segment m [] = False"
| "absent_segment m (k # ks) =
     (is_mapping m \<and>
      (case getitem m k of Inl _ \<Rightarrow> True | Inr v \<Rightarrow> absent_segment v ks))"

text \<open>
  What one entry of a multi-line list contributes to the array, in the words of the
  specification: its values as nodes; with a comment, the comment on the last of
  them, or, when there is no value, a full-line comment.
\<close>

fun set_comment :: "pyval \<Rightarrow> string \<Rightarrow> pyval" where
  \<comment> \<open>the node with the comment attached\<close>
  "set_comment (TItem v _) c = TItem v (Some c)"
| "set_comment (TComment _) c = TComment c"
| "set_comment (TArray ml xs _) c = TArray ml xs (Some c)"
| "set_comment (TTable ml es _) c = TTable ml es (Some c)"
| "set_comment v c = v"

definition entry_items :: "pyval list Commented \<Rightarrow> pyval list" where
  "entry_items e =
     (let xs = map item (value_or e [])
      in case c_comment e of
           None \<Rightarrow> xs
         | Some c \<Rightarrow>
             if c = [] then xs
             else if xs = [] then [TComment c]
             else butlast xs @ [set_comment (last xs) c])"


section \<open>Theorems\<close>

subsection \<open>Scalar coercion\<close>

text \<open>
  C8, as stated, fails: \<open>coerce_scalar\<close> strips its argument first, so when no
  conversion applies the result is the stripped text, not the original string; and
  where \<open>is_float\<close> accepts a text that is no float literal, the float conversion
  raises instead of falling through to the booleans.
\<close>

theorem coerce_scalar_original_counterexample:
  "\<not> isdecimal '' hello '' \<and> \<not> is_float '' hello '' \<and> \<not> is_true '' hello ''
   \<and> \<not> is_false '' hello '' \<and> coerce_scalar '' hello '' \<noteq> Inr (PStr '' hello '')
   \<and> is_float ''1_'' \<and> coerce_scalar ''1_'' = Inl (ValueError_float ''1_'')"
  by code_simp

text \<open>
  C8, amended: \<open>coerce_scalar\<close> strips its argument and then tries, in this order,
  the integer conversion (all digits, no sign), the float conversion when \<open>is_float\<close>
  holds (giving the float whenever the text is a float literal), boolean true and
  boolean false; when none of the tests holds it returns the stripped string.
\<close>

theorem coerce_scalar_order:
  "(isdecimal (strip s) \<longrightarrow> coerce_scalar s = Inr (PInt (py_int (strip s))))
   \<and> (\<not> isdecimal (strip s) \<and> is_float (strip s) \<and> py_float (strip s) = Inr f
        \<longrightarrow> coerce_scalar s = Inr (PFloat f))
   \<and> (\<not> isdecimal (strip s) \<and> \<not> is_float (strip s) \<and> is_true (strip s)
        \<longrightarrow> coerce_scalar s = Inr (PBool True))
   \<and> (\<not> isdecimal (strip s) \<and> \<not> is_float (strip s) \<and> \<not> is_true (strip s) \<and> is_false (strip s)
        \<longrightarrow> coerce_scalar s = Inr (PBool False))
   \<and> (\<not> isdecimal (strip s) \<and> \<not> is_float (strip s) \<and> \<not> is_true (strip s) \<and> \<not> is_false (strip s)
        \<longrightarrow> coerce_scalar s = Inr (PStr (strip s)))"
  by (simp add: coerce_scalar_def Let_def)

theorem coerce_scalar_order_witness:
  "coerce_scalar ''42'' = Inr (PInt 42)
   \<and> coerce_scalar ''3.14'' = Inr (PFloat (FFinite False 314 (- 2)))
   \<and> coerce_scalar ''nan'' = Inr (PFloat FNan)
   \<and> coerce_scalar ''Yes'' = Inr (PBool True)
   \<and> coerce_scalar ''off'' = Inr (PBool False)
   \<and> coerce_scalar '' hello '' = Inr (PStr ''hello'')"
proof -
  have a: "isdecimal (strip ''42'')" "py_int (strip ''42'') = 42"
    by code_simp+
  have b: "\<not> isdecimal (strip ''3.14'')" "is_float (strip ''3.14'')"
    "py_float (strip ''3.14'') = Inr (FFinite False 314 (- 2))"
    by code_simp+
  have c: "\<not> isdecimal (strip ''nan'')" "is_float (strip ''nan'')" "py_float (strip ''nan'') = Inr FNan"
    by code_simp+
  have d: "\<not> isdecimal (strip ''Yes'')" "\<not> is_float (strip ''Yes'')" "is_true (strip ''Yes'')"
    by code_simp+
  have e: "\<not> isdecimal (strip ''off'')" "\<not> is_float (strip ''off'')" "\<not> is_true (strip ''off'')"
    "is_false (strip ''off'')"
    by code_simp+
  have f: "\<not> isdecimal (strip '' hello '')" "\<not> is_float (strip '' hello '')"
    "\<not> is_true (strip '' hello '')" "\<not> is_false (strip '' hello '')" "strip '' hello '' = ''hello''"
    by code_simp+
  from coerce_scalar_order [of "''42''"] a
  have 1: "coerce_scalar ''42'' = Inr (PInt 42)" by metis
  from coerce_scalar_order [of "''3.14''" "FFinite False 314 (- 2)"] b
  have 2: "coerce_scalar ''3.14'' = Inr (PFloat (FFinite False 314 (- 2)))" by metis
  from coerce_scalar_order [of "''nan''" FNan] c
  have 3: "coerce_scalar ''nan'' = Inr (PFloat FNan)" by metis
  from coerce_scalar_order [of "''Yes''"] d
  have 4: "coerce_scalar ''Yes'' = Inr (PBool True)" by metis
  from coerce_scalar_order [of "''off''"] e
  have 5: "coerce_scalar ''off'' = Inr (PBool False)" by metis
  from coerce_scalar_order [of "'' hello ''"] f
  have 6: "coerce_scalar '' hello '' = Inr (PStr ''hello'')" by metis
  from 1 2 3 4 5 6 show ?thesis by blast
qed

subsection \<open>Nodes\<close>

lemma is_node_item: "is_node (item v)"
  by (cases v) (simp_all add: item_def)

lemma item_node: "is_node v \<Longrightarrow> item v = v"
  by (simp add: item_def)

subsection \<open>The applier\<close>

text \<open>
  C1: when the field is present and the transformation raises an \<open>Exception\<close> on the
  value stored there, \<open>apply\<close> returns the container as it was, so the value under
  the field is the same, and adds to the log one warning, which names the value and
  its class, followed by one debug record.
\<close>

theorem apply_failing_transformation:
  assumes "getitem container field = Inr v" and "fn v = Inl e" and "is_Exception e"
  shows "apply_tf container field fn lg =
           Inr (container, lg @ [(WARNING, Impossible_to_transform v (class_name v)),
                                 (DEBUG, Please_check_details)])
         \<and> filter (\<lambda>r. fst r = WARNING)
              [(WARNING, Impossible_to_transform v (class_name v)), (DEBUG, Please_check_details)]
            = [(WARNING, Impossible_to_transform v (class_name v))]
         \<and> (\<forall>c' lg'. apply_tf container field fn lg = Inr (c', lg')
               \<longrightarrow> c' = container \<and> getitem c' field = Inr v)"
  using assms by (simp add: apply_tf_def)

theorem apply_failing_transformation_witness:
  "apply_tf (PDict [(''flag'', PStr ''maybe'')]) ''flag'' coerce_bool_any []
   = Inr (PDict [(''flag'', PStr ''maybe'')],
          [(WARNING, Impossible_to_transform (PStr ''maybe'') ''str''), (DEBUG, Please_check_details)])"
proof -
  have g: "getitem (PDict [(''flag'', PStr ''maybe'')]) ''flag'' = Inr (PStr ''maybe'')"
    by simp
  have f: "coerce_bool_any (PStr ''maybe'') = Inl (ValueError_bool ''maybe'')"
    by code_simp
  have x: "is_Exception (ValueError_bool ''maybe'')"
    by simp
  from apply_failing_transformation
         [where container = "PDict [(''flag'', PStr ''maybe'')]" and field = "''flag''"
            and fn = coerce_bool_any and v = "PStr ''maybe''" and e = "ValueError_bool ''maybe''"
            and lg = "[]", OF g f x]
  show ?thesis
    by simp
qed

text \<open>
  C9: the lookup \<open>container[field]\<close> stands before the \<open>try\<close>, so on a mapping without
  the field \<open>apply\<close> raises \<open>KeyError\<close>, whatever the transformation is; nothing is
  returned and nothing is logged.
\<close>

theorem apply_missing_field_raises:
  assumes "is_mapping container" and "\<not> has_key container field"
  shows "apply_tf container field fn lg = Inl (KeyError field)"
  using assms by (cases container) (auto simp: apply_tf_def split: option.splits)

theorem apply_missing_field_raises_witness:
  "apply_tf (PDict [(''a'', PStr ''1'')]) ''b'' coerce_bool_any [] = Inl (KeyError ''b'')"
proof -
  have m: "is_mapping (PDict [(''a'', PStr ''1'')])" by simp
  have k: "\<not> has_key (PDict [(''a'', PStr ''1'')]) ''b''" by simp
  from apply_missing_field_raises [OF m k] show ?thesis .
qed

subsection \<open>The nested applier\<close>

lemma getitem_KeyError: "getitem m k = Inl e \<Longrightarrow> is_mapping m \<Longrightarrow> e = KeyError k"
  by (cases m) (auto split: option.splits)

lemma get_nested_resolve: "resolve m ks = Some v \<Longrightarrow> get_nested m ks d = Inr v"
proof (induction ks arbitrary: m)
  case Nil
  then show ?case by simp
next
  case (Cons k ks)
  then show ?case
    by (cases "getitem m k") (auto split: if_splits)
qed

lemma get_nested_absent: "absent_segment m ks \<Longrightarrow> get_nested m ks d = Inr d"
proof (induction ks arbitrary: m)
  case Nil
  then show ?case by simp
next
  case (Cons k ks)
  show ?case
  proof (cases "getitem m k")
    case (Inl e)
    with Cons.prems have "e = KeyError k"
      by (auto dest: getitem_KeyError)
    with Inl show ?thesis by simp
  next
    case (Inr v)
    with Cons show ?thesis by simp
  qed
qed

text \<open>
  C2, as stated, fails: the test \<open>if not nested\<close> comes before the \<open>isinstance\<close> test,
  so when the segments before the last resolve to a value that is no mapping but is
  false (here the empty string), \<open>apply_nested\<close> returns the container and raises
  nothing.
\<close>

theorem apply_nested_falsy_counterexample:
  "resolve (PDict [(''a'', PStr [])]) [''a''] = Some (PStr [])
   \<and> \<not> is_mapping (PStr [])
   \<and> apply_nested (PDict [(''a'', PStr [])]) [''a'', ''b''] coerce_bool_any []
       = Inr (PDict [(''a'', PStr [])], [])"
  by (simp add: apply_nested_def)

text \<open>
  C2, amended: when the segments before the last all resolve, to a value that is true
  and no mapping, \<open>apply_nested\<close> raises the invalid-path error; when they resolve to
  a false value, or when one of them is absent, it returns the container and the log
  unchanged.
\<close>

theorem apply_nested_invalid_path:
  "(resolve container parent = Some v \<and> truthy v \<and> \<not> is_mapping v
      \<longrightarrow> apply_nested container (parent @ [lst]) fn lg
            = Inl (ValueError_cannot_apply v (class_name v)))
   \<and> (resolve container parent = Some v \<and> \<not> truthy v
      \<longrightarrow> apply_nested container (parent @ [lst]) fn lg = Inr (container, lg))
   \<and> (absent_segment container parent
      \<longrightarrow> apply_nested container (parent @ [lst]) fn lg = Inr (container, lg))"
  by (auto simp: apply_nested_def get_nested_resolve get_nested_absent)

theorem apply_nested_invalid_path_witness:
  "apply_nested (PDict [(''a'', PDict [(''b'', PStr ''x'')])]) [''a'', ''b'', ''c''] coerce_bool_any []
     = Inl (ValueError_cannot_apply (PStr ''x'') ''str'')
   \<and> apply_nested (PDict [(''a'', PDict [(''b'', PInt 0)])]) [''a'', ''b'', ''c''] coerce_bool_any []
     = Inr (PDict [(''a'', PDict [(''b'', PInt 0)])], [])
   \<and> apply_nested (PDict [(''a'', PDict [(''z'', PStr ''x'')])]) [''a'', ''b'', ''c''] coerce_bool_any []
     = Inr (PDict [(''a'', PDict [(''z'', PStr ''x'')])], [])"
proof -
  have 1: "resolve (PDict [(''a'', PDict [(''b'', PStr ''x'')])]) [''a'', ''b''] = Some (PStr ''x'')
           \<and> truthy (PStr ''x'') \<and> \<not> is_mapping (PStr ''x'')"
    by simp
  have 2: "resolve (PDict [(''a'', PDict [(''b'', PInt 0)])]) [''a'', ''b''] = Some (PInt 0)
           \<and> \<not> truthy (PInt 0)"
    by simp
  have 3: "absent_segment (PDict [(''a'', PDict [(''z'', PStr ''x'')])]) [''a'', ''b'']"
    by simp
  from 1 apply_nested_invalid_path
         [where container = "PDict [(''a'', PDict [(''b'', PStr ''x'')])]" and parent = "[''a'', ''b'']"
            and v = "PStr ''x''" and lst = "''c''" and fn = coerce_bool_any and lg = "[]"]
  have a: "apply_nested (PDict [(''a'', PDict [(''b'', PStr ''x'')])]) [''a'', ''b'', ''c''] coerce_bool_any []
             = Inl (ValueError_cannot_apply (PStr ''x'') ''str'')"
    by simp
  from 2 apply_nested_invalid_path
         [where container = "PDict [(''a'', PDict [(''b'', PInt 0)])]" and parent = "[''a'', ''b'']"
            and v = "PInt 0" and lst = "''c''" and fn = coerce_bool_any and lg = "[]"]
  have b: "apply_nested (PDict [(''a'', PDict [(''b'', PInt 0)])]) [''a'', ''b'', ''c''] coerce_bool_any []
             = Inr (PDict [(''a'', PDict [(''b'', PInt 0)])], [])"
    by simp
  from 3 apply_nested_invalid_path
         [where container = "PDict [(''a'', PDict [(''z'', PStr ''x'')])]" and parent = "[''a'', ''b'']"
            and lst = "''c''" and fn = coerce_bool_any and lg = "[]"]
  have c: "apply_nested (PDict [(''a'', PDict [(''z'', PStr ''x'')])]) [''a'', ''b'', ''c''] coerce_bool_any []
             = Inr (PDict [(''a'', PDict [(''z'', PStr ''x'')])], [])"
    by simp
  from a b c show ?thesis by blast
qed

subsection \<open>Materialization of lists\<close>

lemma attach_set_comment: "is_node n \<Longrightarrow> attach_comment n c = Inr (set_comment n c)"
  by (cases n) simp_all

lemma last_item_comment:
  assumes "vals \<noteq> []"
  shows "add_comment_array_last_item (out @ map item vals) c
         = Inr (out @ butlast (map item vals) @ [set_comment (last (map item vals)) c])"
proof -
  from assms have ne: "map item vals \<noteq> []" by simp
  then have n: "is_node (last (map item vals))"
    by (simp add: last_map is_node_item assms)
  from ne have l: "last (out @ map item vals) = last (map item vals)" by simp
  from ne have b: "butlast (out @ map item vals) = out @ butlast (map item vals)"
    by (simp add: butlast_append)
  show ?thesis
    using ne n by (simp add: add_comment_array_last_item_def l b attach_set_comment)
qed

lemma list_loop_multiline:
  "list_loop self True out es = Inr (TArray True (out @ concat (map entry_items es)) None, self)"
proof (induction es arbitrary: out)
  case Nil
  then show ?case by simp
next
  case (Cons e es)
  show ?case
  proof (cases "c_comment e")
    case None
    then show ?thesis
      by (simp add: Cons.IH has_comment_def entry_items_def Let_def)
  next
    case (Some c)
    show ?thesis
    proof (cases "c = []")
      case True
      with Some show ?thesis
        by (simp add: Cons.IH has_comment_def entry_items_def Let_def)
    next
      case False
      show ?thesis
      proof (cases "value_or e [] = []")
        case True
        with Some False show ?thesis
          by (simp add: Cons.IH has_comment_def entry_items_def Let_def
                add_comment_array_entire_line_def)
      next
        case ne: False
        with Some False show ?thesis
          by (simp add: Cons.IH has_comment_def entry_items_def Let_def last_item_comment)
      qed
    qed
  qed
qed

lemma list_loop_single:
  "list_loop self False [] [e]
   = Inr (TArray False (map item (value_or e [])) (if has_comment e then c_comment e else None),
          if has_comment e then self\<lparr>cl_comment := c_comment e\<rparr> else self)"
  by (cases "c_comment e") (simp_all add: has_comment_def Let_def)

text \<open>
  C4: the array made from a \<open>CommentedList\<close> is multi-line exactly when the list has
  more than one entry.  With one entry that has a comment, the comment is attached to
  the array itself.  With more than one entry, the entries of the array are those of
  \<open>entry_items\<close>, entry after entry: the comment of an entry is on the last element
  the entry contributed, or, when it contributed none, is a full-line comment; the
  array itself has no comment.  For \<open>x # c1\<close>, newline, \<open>y\<close> the comment \<open>c1\<close> is on
  the element \<open>x\<close>.
\<close>

theorem as_toml_obj_list_comments:
  "(\<exists>xs c l'. as_toml_obj_list l = Inr (TArray (1 < length (cl_data l)) xs c, l'))
   \<and> (cl_data l = [e] \<and> has_comment e \<longrightarrow>
        (\<exists>l'. as_toml_obj_list l = Inr (TArray False (map item (value_or e [])) (c_comment e), l')))
   \<and> (1 < length (cl_data l) \<longrightarrow>
        as_toml_obj_list l = Inr (TArray True (concat (map entry_items (cl_data l))) None, l))
   \<and> (case split_list (''x # c1'' @ [CHR 0x0A] @ ''y'') '','' pstr True ''#;'' of
         Inl x \<Rightarrow> False
       | Inr cl \<Rightarrow> as_toml_obj_list cl
                  = Inr (TArray True [TItem (PStr ''x'') (Some ''c1''), TItem (PStr ''y'') None] None, cl))"
proof (intro conjI impI)
  show "\<exists>xs c l'. as_toml_obj_list l = Inr (TArray (1 < length (cl_data l)) xs c, l')"
  proof (cases "cl_data l")
    case Nil
    then show ?thesis by (simp add: as_toml_obj_list_def)
  next
    case (Cons e1 es)
    show ?thesis
    proof (cases es)
      case Nil
      with Cons show ?thesis
        by (simp add: as_toml_obj_list_def list_loop_single del: list_loop.simps)
    next
      case (Cons e2 es2)
      with \<open>cl_data l = e1 # es\<close> show ?thesis
        by (simp add: as_toml_obj_list_def list_loop_multiline del: list_loop.simps)
    qed
  qed
next
  assume "cl_data l = [e] \<and> has_comment e"
  then show "\<exists>l'. as_toml_obj_list l = Inr (TArray False (map item (value_or e [])) (c_comment e), l')"
    by (simp add: as_toml_obj_list_def list_loop_single del: list_loop.simps)
next
  assume "1 < length (cl_data l)"
  then show "as_toml_obj_list l = Inr (TArray True (concat (map entry_items (cl_data l))) None, l)"
    by (simp add: as_toml_obj_list_def list_loop_multiline del: list_loop.simps)
next
  show "case split_list (''x # c1'' @ [CHR 0x0A] @ ''y'') '','' pstr True ''#;'' of
         Inl x \<Rightarrow> False
       | Inr cl \<Rightarrow> as_toml_obj_list cl
                  = Inr (TArray True [TItem (PStr ''x'') (Some ''c1''), TItem (PStr ''y'') None] None, cl)"
    by code_simp
qed

theorem as_toml_obj_list_comments_witness:
  "(\<exists>l'. as_toml_obj_list \<lparr>cl_data = [\<lparr>c_value = Some [PStr ''x''], c_comment = Some ''c1''\<rparr>],
                             cl_comment = None\<rparr>
          = Inr (TArray False [TItem (PStr ''x'') None] (Some ''c1''), l'))
   \<and> as_toml_obj_list \<lparr>cl_data = [\<lparr>c_value = Some [PStr ''x''], c_comment = Some ''c1''\<rparr>,
                                  \<lparr>c_value = None, c_comment = Some ''c2''\<rparr>,
                                  \<lparr>c_value = Some [PStr ''y''], c_comment = None\<rparr>],
                       cl_comment = None\<rparr>
     = Inr (TArray True [TItem (PStr ''x'') (Some ''c1''), TComment ''c2'', TItem (PStr ''y'') None] None,
            \<lparr>cl_data = [\<lparr>c_value = Some [PStr ''x''], c_comment = Some ''c1''\<rparr>,
                        \<lparr>c_value = None, c_comment = Some ''c2''\<rparr>,
                        \<lparr>c_value = Some [PStr ''y''], c_comment = None\<rparr>],
             cl_comment = None\<rparr>)"
proof -
  let ?e = "\<lparr>c_value = Some [PStr ''x''], c_comment = Some ''c1''\<rparr>"
  let ?l1 = "\<lparr>cl_data = [?e], cl_comment = None\<rparr>"
  let ?l2 = "\<lparr>cl_data = [?e, \<lparr>c_value = None, c_comment = Some ''c2''\<rparr>,
                          \<lparr>c_value = Some [PStr ''y''], c_comment = None\<rparr>],
              cl_comment = None\<rparr>"
  have h1: "cl_data ?l1 = [?e] \<and> has_comment ?e" by (simp add: has_comment_def)
  have h2: "1 < length (cl_data ?l2)" by simp
  from as_toml_obj_list_comments [where l = ?l1 and e = ?e] h1
  have 1: "\<exists>l'. as_toml_obj_list ?l1 = Inr (TArray False (map item (value_or ?e [])) (c_comment ?e), l')"
    by blast
  from as_toml_obj_list_comments [where l = ?l2] h2
  have 2: "as_toml_obj_list ?l2 = Inr (TArray True (concat (map entry_items (cl_data ?l2))) None, ?l2)"
    by blast
  from 1 2 show ?thesis
    by (simp add: value_or_def item_def entry_items_def)
qed

subsection \<open>Materialization and the comment attribute\<close>

lemma set_comment_node: "is_node n \<Longrightarrow> is_node (set_comment n c)"
  by (cases n) simp_all

lemma list_loop_node: "list_loop self ml out es = Inr (obj, s') \<Longrightarrow> is_node obj"
proof (induction es arbitrary: out)
  case Nil
  then show ?case by auto
next
  case (Cons e es)
  then show ?case
    by (auto simp: Let_def split: if_splits option.splits sum.splits)
qed

lemma kv_loop_node: "kv_loop self ml out es = Inr (obj, s') \<Longrightarrow> is_node obj"
proof (induction es arbitrary: out)
  case Nil
  then show ?case by auto
next
  case (Cons e es)
  then show ?case
    by (auto simp: Let_def split: if_splits option.splits sum.splits)
qed

lemma as_toml_obj_node: "as_toml_obj val = Inr (obj, val') \<Longrightarrow> is_node obj"
proof (cases val)
  case (Plain v)
  assume "as_toml_obj val = Inr (obj, val')"
  with Plain show ?thesis by simp
next
  case (PCommented e)
  assume a: "as_toml_obj val = Inr (obj, val')"
  show ?thesis
  proof (cases "c_comment e")
    case None
    with a PCommented show ?thesis
      by (auto simp: as_toml_obj_commented_def create_item_def is_node_item split: sum.splits)
  next
    case (Some c)
    with a PCommented show ?thesis
      by (auto simp: as_toml_obj_commented_def create_item_def is_node_item attach_set_comment
            set_comment_node split: sum.splits)
  qed
next
  case (PCommentedList l)
  assume "as_toml_obj val = Inr (obj, val')"
  with PCommentedList show ?thesis
    by (auto simp: as_toml_obj_list_def split: sum.splits dest: list_loop_node)
next
  case (PCommentedKV t)
  assume "as_toml_obj val = Inr (obj, val')"
  with PCommentedKV show ?thesis
    by (auto simp: as_toml_obj_kv_def split: sum.splits dest: kv_loop_node)
qed

lemma setitem_twice:
  "is_mapping container \<Longrightarrow> is_node obj \<Longrightarrow> is_node obj' \<Longrightarrow>
   (case setitem container field obj of Inl e \<Rightarrow> Inl e | Inr c1 \<Rightarrow> setitem c1 field obj')
   = setitem container field obj'"
  by (cases container) (simp_all add: item_node)

lemma setitem_mapping: "is_mapping container \<Longrightarrow> \<exists>c1. setitem container field obj = Inr c1 \<and> is_mapping c1"
  by (cases container) simp_all

lemma add_to_container_reattach:
  assumes m: "is_mapping container" and a: "as_toml_obj val = Inr (obj, val')"
    and c: "comment_attr val' = Some c"
  shows "add_to_container container field val = setitem container field (set_comment obj c)"
proof -
  from a have n: "is_node obj" by (rule as_toml_obj_node)
  from setitem_twice [OF m n set_comment_node [OF n], of field c]
  have tw: "(case setitem container field obj of Inl e \<Rightarrow> Inl e
             | Inr c1 \<Rightarrow> setitem c1 field (set_comment obj c))
            = setitem container field (set_comment obj c)" .
  from setitem_mapping [OF m, of field obj] obtain c1
    where s1: "setitem container field obj = Inr c1" by blast
  from tw s1 have tw': "setitem c1 field (set_comment obj c) = setitem container field (set_comment obj c)"
    by simp
  show ?thesis
  proof (cases val)
    case (Plain v)
    with a show ?thesis by simp
  next
    case (PCommented x)
    with a c n s1 tw' show ?thesis
      by (simp add: add_to_container_def attach_set_comment del: as_toml_obj.simps)
  next
    case (PCommentedList x)
    with a c n s1 tw' show ?thesis
      by (simp add: add_to_container_def attach_set_comment del: as_toml_obj.simps)
  next
    case (PCommentedKV x)
    with a c n s1 tw' show ?thesis
      by (simp add: add_to_container_def attach_set_comment del: as_toml_obj.simps)
  qed
qed

text \<open>
  C10: materializing a \<open>CommentedList\<close> or a \<open>CommentedKV\<close> that has one entry, with
  a comment, changes the representation: its comment attribute, whatever it was
  before, is the comment of the entry afterwards.  \<open>_add_to_container\<close> reads the
  attribute of the representation as it is after materialization and, when it is set,
  the node stored under the field is the materialized node with that comment attached.
\<close>

theorem materialization_sets_comment_attribute:
  "(has_comment e \<longrightarrow>
      as_toml_obj (PCommentedList \<lparr>cl_data = [e], cl_comment = a\<rparr>)
      = Inr (TArray False (map item (value_or e [])) (c_comment e),
             PCommentedList \<lparr>cl_data = [e], cl_comment = c_comment e\<rparr>))
   \<and> (has_comment p \<longrightarrow>
      as_toml_obj (PCommentedKV \<lparr>kv_data = [p], kv_comment = a\<rparr>)
      = Inr (TTable False (foldl table_assign [] (value_or p [])) (c_comment p),
             PCommentedKV \<lparr>kv_data = [p], kv_comment = c_comment p\<rparr>))
   \<and> (is_mapping container \<and> as_toml_obj val = Inr (obj, val') \<and> comment_attr val' = Some c \<longrightarrow>
      add_to_container container field val = setitem container field (set_comment obj c))"
proof (intro conjI impI)
  assume "has_comment e"
  then show "as_toml_obj (PCommentedList \<lparr>cl_data = [e], cl_comment = a\<rparr>)
      = Inr (TArray False (map item (value_or e [])) (c_comment e),
             PCommentedList \<lparr>cl_data = [e], cl_comment = c_comment e\<rparr>)"
    by (simp add: as_toml_obj_list_def list_loop_single del: list_loop.simps)
next
  assume "has_comment p"
  then show "as_toml_obj (PCommentedKV \<lparr>kv_data = [p], kv_comment = a\<rparr>)
      = Inr (TTable False (foldl table_assign [] (value_or p [])) (c_comment p),
             PCommentedKV \<lparr>kv_data = [p], kv_comment = c_comment p\<rparr>)"
    by (cases "c_comment p") (simp_all add: as_toml_obj_kv_def has_comment_def Let_def)
next
  assume "is_mapping container \<and> as_toml_obj val = Inr (obj, val') \<and> comment_attr val' = Some c"
  then show "add_to_container container field val = setitem container field (set_comment obj c)"
    by (simp add: add_to_container_reattach)
qed

theorem materialization_sets_comment_attribute_witness:
  "as_toml_obj (PCommentedList \<lparr>cl_data = [\<lparr>c_value = Some [PStr ''x''], c_comment = Some ''c1''\<rparr>],
                                cl_comment = None\<rparr>)
   = Inr (TArray False [TItem (PStr ''x'') None] (Some ''c1''),
          PCommentedList \<lparr>cl_data = [\<lparr>c_value = Some [PStr ''x''], c_comment = Some ''c1''\<rparr>],
                          cl_comment = Some ''c1''\<rparr>)
   \<and> as_toml_obj (PCommentedKV \<lparr>kv_data = [\<lparr>c_value = Some [(''a'', PStr ''1'')], c_comment = Some ''note''\<rparr>],
                                kv_comment = None\<rparr>)
   = Inr (TTable False [(Some ''a'', TItem (PStr ''1'') None)] (Some ''note''),
          PCommentedKV \<lparr>kv_data = [\<lparr>c_value = Some [(''a'', PStr ''1'')], c_comment = Some ''note''\<rparr>],
                        kv_comment = Some ''note''\<rparr>)
   \<and> add_to_container (PDict [(''f'', PStr ''x # c1'')]) ''f''
        (PCommentedList \<lparr>cl_data = [\<lparr>c_value = Some [PStr ''x''], c_comment = Some ''c1''\<rparr>],
                         cl_comment = None\<rparr>)
   = Inr (PDict [(''f'', TArray False [TItem (PStr ''x'') None] (Some ''c1''))])"
proof -
  let ?e = "\<lparr>c_value = Some [PStr ''x''], c_comment = Some ''c1''\<rparr>"
  let ?p = "\<lparr>c_value = Some [(''a'', PStr ''1'')], c_comment = Some ''note''\<rparr>"
  let ?val = "PCommentedList \<lparr>cl_data = [?e], cl_comment = None\<rparr>"
  let ?val' = "PCommentedList \<lparr>cl_data = [?e], cl_comment = Some ''c1''\<rparr>"
  let ?obj = "TArray False [TItem (PStr ''x'') None] (Some ''c1'')"
  let ?c = "PDict [(''f'', PStr ''x # c1'')]"
  note t = materialization_sets_comment_attribute
             [where e = ?e and p = ?p and a = None and container = ?c and val = ?val
                and obj = ?obj and val' = ?val' and c = "''c1''" and field = "''f''"]
  have he: "has_comment ?e" by (simp add: has_comment_def)
  have hp: "has_comment ?p" by (simp add: has_comment_def)
  from t he have 1: "as_toml_obj ?val = Inr (?obj, ?val')"
    by (simp add: value_or_def item_def)
  from t hp have 2: "as_toml_obj (PCommentedKV \<lparr>kv_data = [?p], kv_comment = None\<rparr>)
      = Inr (TTable False [(Some ''a'', TItem (PStr ''1'') None)] (Some ''note''),
             PCommentedKV \<lparr>kv_data = [?p], kv_comment = Some ''note''\<rparr>)"
    by (simp add: value_or_def item_def table_assign_def)
  have m: "is_mapping ?c" by simp
  have ca: "comment_attr ?val' = Some ''c1''" by simp
  from t m 1 ca have 3: "add_to_container ?c ''f'' ?val = setitem ?c ''f'' (set_comment ?obj ''c1'')"
    by blast
  from 1 2 3 show ?thesis by simp
qed

subsection \<open>Materialization of key-value pairs\<close>

text \<open>
  Within the assignments of one entry the last pair with a key gives the value under
  that key, and a comment attached at the key of the last pair is on the node made
  from that pair's value.
\<close>

lemma map_of_foldl_table_assign:
  "map_of (foldl table_assign out pairs) (Some k)
   = (case map_of (rev pairs) k of None \<Rightarrow> map_of out (Some k) | Some v \<Rightarrow> Some (item v))"
proof (induction pairs arbitrary: out rule: rev_induct)
  case Nil
  then show ?case by simp
next
  case (snoc kv pairs)
  then show ?case
    by (cases kv) (simp add: table_assign_def update_conv')
qed

lemma kv_last_write_wins:
  "pairs \<noteq> [] \<Longrightarrow>
   map_of (foldl table_assign out pairs) (Some (fst (last pairs))) = Some (item (snd (last pairs)))"
  by (cases pairs rule: rev_cases) (auto simp: table_assign_def update_conv')

lemma kv_entry_comment_on_last_key:
  assumes "pairs \<noteq> []"
  shows "table_comment_at (foldl table_assign out pairs) (fst (last pairs)) c
         = Inr (AList.update (Some (fst (last pairs))) (set_comment (item (snd (last pairs))) c)
                  (foldl table_assign out pairs))"
  using assms
  by (simp add: table_comment_at_def kv_last_write_wins attach_set_comment is_node_item)

text \<open>
  C6 at the input \<open>=1 # c\<close>, newline, \<open>b=2\<close>: the first entry sets the key \<open>""\<close> and
  has the comment \<open>c\<close>.  The test \<open>if k\<close> takes the empty key for no key, so the
  comment is not attached to the value of that key but appended as a full-line
  comment.
\<close>

theorem kv_empty_key_comment_detached:
  "(case split_kv_pairs (''=1 # c'' @ [CHR 0x0A] @ ''b=2'') ''='' pstr '','' True ''#;'' of
      Inl x \<Rightarrow> False
    | Inr kv \<Rightarrow>
        kv_data kv = [\<lparr>c_value = Some [([], PStr ''1'')], c_comment = Some ''c''\<rparr>,
                      \<lparr>c_value = Some [(''b'', PStr ''2'')], c_comment = None\<rparr>]
        \<and> as_toml_obj_kv kv
            = Inr (TTable True [(Some [], TItem (PStr ''1'') None), (None, TComment ''c''),
                                (Some ''b'', TItem (PStr ''2'') None)] None, kv))"
  by code_simp

subsection \<open>Strings\<close>

lemma contains_char: "contains [p] s = (p \<in> set s)"
  by (induction s) auto

lemma partition_on_char:
  "partition_on [p] acc s
   = (if p \<in> set s
      then Some (acc @ takeWhile (\<lambda>c. c \<noteq> p) s, tl (dropWhile (\<lambda>c. c \<noteq> p) s))
      else None)"
  by (induction s arbitrary: acc) auto

lemma dropWhile_id: "xs = [] \<or> \<not> P (hd xs) \<Longrightarrow> dropWhile P xs = xs"
  by (cases xs) auto

lemma strip_hd: "strip s = [] \<or> \<not> isspace (hd (strip s))"
proof (cases "strip s = []")
  case True
  then show ?thesis by simp
next
  case False
  let ?a = "dropWhile isspace s"
  let ?b = "dropWhile isspace (rev ?a)"
  have s: "strip s = rev ?b" by (simp add: strip_def)
  with False have bne: "?b \<noteq> []" by simp
  have "rev ?a = takeWhile isspace (rev ?a) @ ?b" by simp
  then have "?a = rev ?b @ rev (takeWhile isspace (rev ?a))"
    by (metis rev_append rev_rev_ident)
  with bne have "hd ?a = hd (rev ?b)"
    by (metis hd_append2 rev_is_Nil_conv)
  moreover have "?a \<noteq> []"
  proof
    assume a: "?a = []"
    have "?b = []" by (simp only: a rev.simps dropWhile.simps)
    with bne show False by contradiction
  qed
  then have "\<not> isspace (hd ?a)" by (metis hd_dropWhile)
  ultimately show ?thesis using s by simp
qed

lemma strip_last: "strip s = [] \<or> \<not> isspace (last (strip s))"
proof (cases "strip s = []")
  case True
  then show ?thesis by simp
next
  case False
  let ?b = "dropWhile isspace (rev (dropWhile isspace s))"
  have s: "strip s = rev ?b" by (simp add: strip_def)
  with False have bne: "?b \<noteq> []" by simp
  then have "\<not> isspace (hd ?b)" by (metis hd_dropWhile)
  with bne s show ?thesis by (simp add: last_rev)
qed

lemma strip_fixed: "(s = [] \<or> \<not> isspace (hd s)) \<Longrightarrow> (s = [] \<or> \<not> isspace (last s)) \<Longrightarrow> strip s = s"
proof -
  assume h: "s = [] \<or> \<not> isspace (hd s)" and l: "s = [] \<or> \<not> isspace (last s)"
  from h have 1: "dropWhile isspace s = s" by (rule dropWhile_id)
  from l have "rev s = [] \<or> \<not> isspace (hd (rev s))" by (simp add: hd_rev)
  then have 2: "dropWhile isspace (rev s) = rev s" by (rule dropWhile_id)
  show ?thesis by (simp add: strip_def 1 2)
qed

lemma strip_strip: "strip (strip s) = strip s"
  by (rule strip_fixed [OF strip_hd strip_last])

lemma set_strip: "set (strip s) \<subseteq> set s"
proof -
  have "set (strip s) = set (dropWhile isspace (rev (dropWhile isspace s)))"
    by (simp add: strip_def)
  also have "\<dots> \<subseteq> set (rev (dropWhile isspace s))" by (rule set_dropWhileD [THEN subsetI])
  also have "\<dots> \<subseteq> set s" by (auto dest: set_dropWhileD)
  finally show ?thesis .
qed

lemma filter_Nil_find: "(filter P xs = []) = (find P xs = None)"
  by (induction xs) auto

lemma filter_Cons_find: "filter P xs = y # ys \<Longrightarrow> find P xs = Some y"
  by (induction xs) (auto split: if_splits)

lemma split_in_2_char:
  "split_in_2 v [p]
   = Inr (if p \<in> set v
          then (takeWhile (\<lambda>c. c \<noteq> p) v, Some (tl (dropWhile (\<lambda>c. c \<noteq> p) v)))
          else (v, None))"
  by (simp add: split_in_2_def py_split1_def partition_on_char)

subsection \<open>The comment splitter\<close>

lemma startswith_mem: "startswith v p \<Longrightarrow> p \<in> set v"
  by (cases v) (auto simp: startswith_def)

lemma pfxs_empty: "(filter (\<lambda>p. contains [p] v) cp = []) = (\<forall>p\<in>set cp. p \<notin> set v)"
  by (auto simp: filter_empty_conv contains_char)

lemma split_comment_plain:
  assumes "(\<forall>p\<in>set cp. p \<notin> set (strip val)) \<or> 1 < length (splitlines (strip val))"
  shows "split_comment val f cp
         = (case f (strip val) of Inl e \<Rightarrow> Inl e
            | Inr x \<Rightarrow> Inr \<lparr>c_value = Some x, c_comment = None\<rparr>)"
  using assms by (auto simp: split_comment_def Let_def pfxs_empty)

lemma split_comment_whole_line:
  assumes one: "length (splitlines (strip val)) \<le> 1"
    and st: "\<exists>p\<in>set cp. startswith (strip val) p"
  shows "split_comment val f cp
         = Inr \<lparr>c_value = None, c_comment = Some (strip (lstrip cp (strip val)))\<rparr>"
proof -
  from st obtain p where p: "p \<in> set cp" "startswith (strip val) p" by blast
  then have mem: "p \<in> set (strip val)" by (simp add: startswith_mem)
  with p have ne: "filter (\<lambda>p. contains [p] (strip val)) cp \<noteq> []"
    by (auto simp: pfxs_empty)
  from mem have vne: "strip val \<noteq> []" by auto
  from st have ex: "list_ex (startswith (strip val)) cp" by (simp add: list_ex_iff)
  from one have nl: "\<not> 1 < length (splitlines (strip val))" by simp
  show ?thesis
    using ne ex nl vne
    by (simp add: split_comment_def Let_def strip_comment_def strip_strip)
qed

lemma split_comment_inline:
  assumes one: "length (splitlines (strip val)) \<le> 1"
    and st: "\<not> (\<exists>p\<in>set cp. startswith (strip val) p)"
    and fd: "find (\<lambda>p. p \<in> set (strip val)) cp = Some p"
  shows "split_comment val f cp
         = (case f (strip (takeWhile (\<lambda>c. c \<noteq> p) (strip val))) of
              Inl e \<Rightarrow> Inl e
            | Inr x \<Rightarrow>
                Inr \<lparr>c_value = Some x,
                     c_comment = (let r = tl (dropWhile (\<lambda>c. c \<noteq> p) (strip val))
                                  in if r = [] then None
                                     else Some (strip (lstrip cp (strip r))))\<rparr>)"
proof -
  let ?v = "strip val"
  let ?pf = "filter (\<lambda>p. contains [p] ?v) cp"
  have eq: "?pf = filter (\<lambda>p. p \<in> set ?v) cp" by (simp add: contains_char)
  from fd have pin: "p \<in> set ?v" by (auto simp: find_Some_iff)
  from fd have ne: "?pf \<noteq> []"
    unfolding eq by (simp add: filter_Nil_find)
  then obtain q qs where q: "?pf = q # qs" by (cases ?pf) auto
  then have "find (\<lambda>p. p \<in> set ?v) cp = Some q"
    unfolding eq by (rule filter_Cons_find)
  with fd have qp: "q = p" by simp
  from st have ex: "\<not> list_ex (startswith ?v) cp" by (simp add: list_ex_iff)
  from one have nl: "\<not> 1 < length (splitlines ?v)" by simp
  have "split_comment val f cp
        = (case split_in_2 ?v [p] of
             Inl e \<Rightarrow> Inl e
           | Inr (v1, cmt) \<Rightarrow>
               (case f (strip v1) of
                  Inl e \<Rightarrow> Inl e
                | Inr x \<Rightarrow> Inr \<lparr>c_value = Some x, c_comment = strip_comment cmt cp\<rparr>))"
    using ex nl q qp by (simp add: split_comment_def Let_def)
  then show ?thesis
    using pin by (simp add: split_in_2_char strip_comment_def Let_def split: sum.splits)
qed

text \<open>
  C3, as stated, fails in two places.  Without a prefix character the value is
  \<open>coerce_fn\<close> of the stripped line, not of the line: \<open>" a"\<close> gives \<open>"a"\<close>.  And when
  nothing follows the prefix character at which the line is split, there is no
  comment (\<open>None\<close>), where the stripped right part would be the empty string.
\<close>

theorem split_comment_literal_counterexample:
  "split_comment '' a'' noop ''#;'' = Inr \<lparr>c_value = Some ''a'', c_comment = None\<rparr>
   \<and> split_comment '' a'' noop ''#;''
       \<noteq> (case noop '' a'' of Inl e \<Rightarrow> Inl e | Inr x \<Rightarrow> Inr \<lparr>c_value = Some x, c_comment = None\<rparr>)
   \<and> split_comment ''foo #'' noop ''#;'' = Inr \<lparr>c_value = Some ''foo'', c_comment = None\<rparr>
   \<and> split_comment ''foo #'' noop ''#;'' \<noteq> Inr \<lparr>c_value = Some ''foo'', c_comment = Some (strip [])\<rparr>"
  by code_simp

text \<open>
  C3, amended.  Let \<open>v\<close> be the stripped argument.  When no prefix character occurs
  in \<open>v\<close>, or \<open>v\<close> has more than one line, the result is \<open>coerce_fn v\<close> with no
  comment.  Otherwise, when \<open>v\<close> starts with a prefix character, the result has no
  value and its comment is \<open>v\<close> without the leading prefix characters, stripped.
  Otherwise \<open>v\<close> is split at the first occurrence of \<open>p\<close>, the first character of
  \<open>comment_prefixes\<close> that occurs in \<open>v\<close>: the value is \<open>coerce_fn\<close> of the stripped
  left part, and the comment is the right part, stripped, without its leading prefix
  characters and stripped again, or no comment when the right part is empty.  An
  exception of \<open>coerce_fn\<close> is the exception of \<open>split_comment\<close>.
\<close>

theorem split_comment_rules:
  "((\<forall>p\<in>set cp. p \<notin> set (strip val)) \<or> 1 < length (splitlines (strip val)) \<longrightarrow>
      split_comment val f cp
      = (case f (strip val) of Inl e \<Rightarrow> Inl e
         | Inr x \<Rightarrow> Inr \<lparr>c_value = Some x, c_comment = None\<rparr>))
   \<and> (length (splitlines (strip val)) \<le> 1 \<and> (\<exists>p\<in>set cp. startswith (strip val) p) \<longrightarrow>
      split_comment val f cp
      = Inr \<lparr>c_value = None, c_comment = Some (strip (lstrip cp (strip val)))\<rparr>)
   \<and> (length (splitlines (strip val)) \<le> 1 \<and> \<not> (\<exists>p\<in>set cp. startswith (strip val) p)
       \<and> find (\<lambda>p. p \<in> set (strip val)) cp = Some p \<longrightarrow>
      split_comment val f cp
      = (case f (strip (takeWhile (\<lambda>c. c \<noteq> p) (strip val))) of
           Inl e \<Rightarrow> Inl e
         | Inr x \<Rightarrow>
             Inr \<lparr>c_value = Some x,
                  c_comment = (let r = tl (dropWhile (\<lambda>c. c \<noteq> p) (strip val))
                               in if r = [] then None
                                  else Some (strip (lstrip cp (strip r))))\<rparr>))"
  using split_comment_plain [of cp val f] split_comment_whole_line [of val cp f]
    split_comment_inline [of val cp p f]
  by blast

theorem split_comment_rules_witness:
  "split_comment ''plain text '' noop ''#;'' = Inr \<lparr>c_value = Some ''plain text'', c_comment = None\<rparr>
   \<and> split_comment (''a # b'' @ [CHR 0x0A] @ ''c'') noop ''#;''
       = Inr \<lparr>c_value = Some (''a # b'' @ [CHR 0x0A] @ ''c''), c_comment = None\<rparr>
   \<and> split_comment ''# whole line'' noop ''#;'' = Inr \<lparr>c_value = None, c_comment = Some ''whole line''\<rparr>
   \<and> split_comment ''foo # bar'' noop ''#;'' = Inr \<lparr>c_value = Some ''foo'', c_comment = Some ''bar''\<rparr>"
proof -
  let ?ml = "''a # b'' @ [CHR 0x0A] @ ''c''"
  have h1: "\<forall>p\<in>set ''#;''. p \<notin> set (strip ''plain text '')" by code_simp
  have h2: "1 < length (splitlines (strip ?ml))" by code_simp
  have h3: "length (splitlines (strip ''# whole line'')) \<le> 1
            \<and> (\<exists>p\<in>set ''#;''. startswith (strip ''# whole line'') p)" by code_simp
  have h4: "length (splitlines (strip ''foo # bar'')) \<le> 1
            \<and> \<not> (\<exists>p\<in>set ''#;''. startswith (strip ''foo # bar'') p)
            \<and> find (\<lambda>p. p \<in> set (strip ''foo # bar'')) ''#;'' = Some (CHR ''#'')" by code_simp
  have e1: "strip ''plain text '' = ''plain text''" by code_simp
  have e2: "strip ?ml = ?ml" by code_simp
  have e3: "strip (lstrip ''#;'' (strip ''# whole line'')) = ''whole line''" by code_simp
  have e4: "strip (takeWhile (\<lambda>c. c \<noteq> CHR ''#'') (strip ''foo # bar'')) = ''foo''"
    "tl (dropWhile (\<lambda>c. c \<noteq> CHR ''#'') (strip ''foo # bar'')) = '' bar''"
    "strip (lstrip ''#;'' (strip '' bar'')) = ''bar''" by code_simp+
  from h1 split_comment_rules [where val = "''plain text ''" and cp = "''#;''" and f = noop]
  have 1: "split_comment ''plain text '' noop ''#;''
           = (case noop (strip ''plain text '') of Inl e \<Rightarrow> Inl e
              | Inr x \<Rightarrow> Inr \<lparr>c_value = Some x, c_comment = None\<rparr>)"
    by blast
  from h2 split_comment_rules [where val = ?ml and cp = "''#;''" and f = noop]
  have 2: "split_comment ?ml noop ''#;''
           = (case noop (strip ?ml) of Inl e \<Rightarrow> Inl e
              | Inr x \<Rightarrow> Inr \<lparr>c_value = Some x, c_comment = None\<rparr>)"
    by blast
  from h3 split_comment_rules [where val = "''# whole line''" and cp = "''#;''" and f = noop]
  have 3: "split_comment ''# whole line'' noop ''#;''
           = Inr \<lparr>c_value = None, c_comment = Some (strip (lstrip ''#;'' (strip ''# whole line'')))\<rparr>"
    by blast
  from h4 split_comment_rules [where val = "''foo # bar''" and cp = "''#;''" and f = noop
                                 and p = "CHR ''#''"]
  have 4: "split_comment ''foo # bar'' noop ''#;''
      = (case noop (strip (takeWhile (\<lambda>c. c \<noteq> CHR ''#'') (strip ''foo # bar''))) of
           Inl e \<Rightarrow> Inl e
         | Inr x \<Rightarrow>
             Inr \<lparr>c_value = Some x,
                  c_comment = (let r = tl (dropWhile (\<lambda>c. c \<noteq> CHR ''#'') (strip ''foo # bar''))
                               in if r = [] then None
                                  else Some (strip (lstrip ''#;'' (strip r))))\<rparr>)"
    by blast
  from 1 have a: "split_comment ''plain text '' noop ''#;'' = Inr \<lparr>c_value = Some ''plain text'', c_comment = None\<rparr>"
    by (simp only: e1) (simp add: noop_def)
  from 2 have b: "split_comment ?ml noop ''#;'' = Inr \<lparr>c_value = Some ?ml, c_comment = None\<rparr>"
    by (simp only: e2) (simp add: noop_def)
  from 3 have c: "split_comment ''# whole line'' noop ''#;'' = Inr \<lparr>c_value = None, c_comment = Some ''whole line''\<rparr>"
    by (simp only: e3)
  from 4 have d: "split_comment ''foo # bar'' noop ''#;'' = Inr \<lparr>c_value = Some ''foo'', c_comment = Some ''bar''\<rparr>"
    by (simp only: e4 Let_def) (simp add: noop_def)
  from a b c d show ?thesis by blast
qed

subsection \<open>The list splitter\<close>

lemma mapM_Inr_iff: "(mapM f xs = Inr ys) = list_all2 (\<lambda>x y. f x = Inr y) xs ys"
proof (induction xs arbitrary: ys)
  case Nil
  then show ?case by auto
next
  case (Cons x xs)
  show ?case
  proof (cases "f x")
    case (Inl e)
    then show ?thesis by (auto simp: list_all2_Cons1)
  next
    case (Inr y)
    show ?thesis
    proof (cases "mapM f xs")
      case (Inl e)
      with Inr Cons.IH show ?thesis by (auto simp: list_all2_Cons1)
    next
      case r: (Inr zs)
      with Inr Cons.IH [of zs] Cons.IH show ?thesis
        by (auto simp: list_all2_Cons1)
    qed
  qed
qed

lemma mapM_total: "(\<And>x. x \<in> set xs \<Longrightarrow> \<exists>y. f x = Inr y) \<Longrightarrow> \<exists>ys. mapM f xs = Inr ys"
proof (induction xs)
  case Nil
  then show ?case by simp
next
  case (Cons x xs)
  then obtain y ys where "f x = Inr y" "mapM f xs = Inr ys"
    by (metis list.set_intros(1) list.set_intros(2))
  then show ?case by simp
qed

lemma split_comment_noop_total: "\<exists>t. split_comment line noop cp = Inr t"
  by (auto simp: split_comment_def Let_def noop_def split_in_2_char split: list.splits)

lemma split_comment_natural:
  "split_comment line g cp
   = (case split_comment line noop cp of
        Inl e \<Rightarrow> Inl e
      | Inr t \<Rightarrow>
          (case c_value t of
             None \<Rightarrow> Inr \<lparr>c_value = None, c_comment = c_comment t\<rparr>
           | Some text \<Rightarrow>
               (case g text of
                  Inl e \<Rightarrow> Inl e
                | Inr x \<Rightarrow> Inr \<lparr>c_value = Some x, c_comment = c_comment t\<rparr>)))"
  by (auto simp: split_comment_def Let_def noop_def split_in_2_char split: list.splits sum.splits)

lemma split_comment_entry:
  assumes "split_comment line g cp = Inr e"
  shows "\<exists>t. split_comment line noop cp = Inr t \<and> c_comment e = c_comment t
             \<and> (case c_value t of
                   None \<Rightarrow> c_value e = None
                 | Some text \<Rightarrow> \<exists>x. g text = Inr x \<and> c_value e = Some x)"
proof -
  from split_comment_noop_total obtain t where t: "split_comment line noop cp = Inr t" by blast
  from assms split_comment_natural [of line g cp] t show ?thesis
    by (auto split: option.splits sum.splits)
qed

lemma split_comment_text:
  assumes "split_comment line noop cp = Inr t" and "c_value t = Some text"
  shows "strip text = text \<and> set text \<subseteq> set line"
proof -
  have tw: "\<And>p x. x \<in> set (strip (takeWhile (\<lambda>c. c \<noteq> p) (strip line))) \<Longrightarrow> x \<in> set line"
  proof -
    fix p x
    assume x: "x \<in> set (strip (takeWhile (\<lambda>c. c \<noteq> p) (strip line)))"
    have "set (strip (takeWhile (\<lambda>c. c \<noteq> p) (strip line))) \<subseteq> set (takeWhile (\<lambda>c. c \<noteq> p) (strip line))"
      by (rule set_strip)
    also have "\<dots> \<subseteq> set (strip line)" by (auto dest: set_takeWhileD)
    also have "\<dots> \<subseteq> set line" by (rule set_strip)
    finally show "x \<in> set line" using x by blast
  qed
  from assms show ?thesis
    using set_strip [of line]
    by (auto simp: split_comment_def Let_def noop_def split_in_2_char strip_strip
          split: list.splits if_splits dest: tw)
qed

lemma splitlines_from_no_break:
  "(\<forall>c\<in>set acc. \<not> is_linebreak c) \<Longrightarrow> l \<in> set (splitlines_from acc s) \<Longrightarrow> c \<in> set l
   \<Longrightarrow> \<not> is_linebreak c"
proof (induction acc s arbitrary: l c rule: splitlines_from.induct)
  case (1 acc)
  then show ?case by (auto split: if_splits)
next
  case (2 acc d ds)
  note acc = "2.prems"(1) and mem = "2.prems"(2) and cl = "2.prems"(3)
  show ?case
  proof (cases "d = CHR 0x0D \<and> (case ds of [] \<Rightarrow> False | e # _ \<Rightarrow> e = CHR 0x0A)")
    case True
    then have "splitlines_from acc (d # ds) = acc # splitlines_from [] (tl ds)"
      by (cases ds) auto
    with mem have "l = acc \<or> l \<in> set (splitlines_from [] (tl ds))" by simp
    then show ?thesis
    proof
      assume "l = acc"
      with acc cl show ?thesis by simp
    next
      assume "l \<in> set (splitlines_from [] (tl ds))"
      with "2.IH"(1) [OF True _ _ cl] show ?thesis by simp
    qed
  next
    case False
    show ?thesis
    proof (cases "is_linebreak d")
      case True
      with False have "splitlines_from acc (d # ds) = acc # splitlines_from [] ds"
        by (cases ds) auto
      with mem have "l = acc \<or> l \<in> set (splitlines_from [] ds)" by simp
      then show ?thesis
      proof
        assume "l = acc"
        with acc cl show ?thesis by simp
      next
        assume "l \<in> set (splitlines_from [] ds)"
        with "2.IH"(2) [OF False True _ _ cl] show ?thesis by simp
      qed
    next
      case nb: False
      with False have "splitlines_from acc (d # ds) = splitlines_from (acc @ [d]) ds"
        by (cases ds) auto
      with mem have m: "l \<in> set (splitlines_from (acc @ [d]) ds)" by simp
      from nb acc have "\<forall>c\<in>set (acc @ [d]). \<not> is_linebreak c" by auto
      from "2.IH"(3) [OF False nb this m cl] show ?thesis .
    qed
  qed
qed

lemma line_no_newline: "l \<in> set (splitlines s) \<Longrightarrow> CHR 0x0A \<notin> set l"
proof
  assume l: "l \<in> set (splitlines s)" and c: "CHR 0x0A \<in> set l"
  have "\<forall>c\<in>set []. \<not> is_linebreak c" by simp
  from splitlines_from_no_break [OF this _ c] l have "\<not> is_linebreak (CHR 0x0A)"
    by (simp add: splitlines_def)
  then show False by (simp add: is_linebreak_def)
qed

lemma split_on_absent:
  "c \<in> set sep \<Longrightarrow> c \<notin> set s \<Longrightarrow> split_on sep acc s = [acc @ s]"
proof (induction s arbitrary: acc)
  case Nil
  then show ?case by simp
next
  case (Cons d ds)
  from Cons.prems have "\<not> prefix sep (d # ds)"
    by (meson set_mono_prefix subsetD)
  with Cons show ?case by simp
qed

lemma split_items_whole:
  assumes "CHR 0x0A \<notin> set text" and "strip text = text"
  shows "split_items (sep @ [CHR 0x0A]) f text
         = (if text = [] then Inr []
            else (case f text of Inl e \<Rightarrow> Inl e | Inr x \<Rightarrow> Inr [x]))"
proof -
  have "split_on (sep @ [CHR 0x0A]) [] text = [text]"
    using split_on_absent [where c = "CHR 0x0A" and sep = "sep @ [CHR 0x0A]" and s = "text" and acc = "[]"]
      assms(1) by simp
  then show ?thesis
    using assms(2) by (simp add: split_items_def py_split_def split: sum.splits)
qed

lemma split_list_lines:
  assumes "split_list val sep f sub cp = Inr cl"
  shows "length (cl_data cl) = length (splitlines (strip val))
         \<and> (\<forall>i<length (cl_data cl).
               split_comment (splitlines (strip val) ! i)
                 (split_items (if \<not> sub \<and> 1 < length (splitlines (strip val))
                               then sep @ [CHR 0x0A] else sep) f)
                 (replace_del sep cp)
               = Inr (cl_data cl ! i))"
proof -
  let ?lines = "splitlines (strip val)"
  let ?sep = "if \<not> sub \<and> 1 < length ?lines then sep @ [CHR 0x0A] else sep"
  let ?g = "\<lambda>v. split_comment v (split_items ?sep f) (replace_del sep cp)"
  from assms obtain es where es: "mapM ?g ?lines = Inr es" and cl: "cl = \<lparr>cl_data = es, cl_comment = None\<rparr>"
    by (auto simp: split_list_def Let_def split: sum.splits)
  from es have "list_all2 (\<lambda>x y. ?g x = Inr y) ?lines es"
    by (simp only: mapM_Inr_iff)
  then have "length ?lines = length es \<and> (\<forall>i<length es. ?g (?lines ! i) = Inr (es ! i))"
    by (auto simp: list_all2_conv_all_nth)
  with cl show ?thesis by auto
qed

lemma split_list_total:
  assumes "\<And>l. l \<in> set (splitlines (strip val)) \<Longrightarrow>
             \<exists>e. split_comment l
                    (split_items (if \<not> sub \<and> 1 < length (splitlines (strip val))
                                  then sep @ [CHR 0x0A] else sep) f)
                    (replace_del sep cp) = Inr e"
  shows "\<exists>cl. split_list val sep f sub cp = Inr cl"
proof -
  from mapM_total [where xs = "splitlines (strip val)"
                    and f = "\<lambda>v. split_comment v
                    (split_items (if \<not> sub \<and> 1 < length (splitlines (strip val))
                                  then sep @ [CHR 0x0A] else sep) f)
                    (replace_del sep cp)"] assms
  obtain es where "mapM (\<lambda>v. split_comment v
                    (split_items (if \<not> sub \<and> 1 < length (splitlines (strip val))
                                  then sep @ [CHR 0x0A] else sep) f)
                    (replace_del sep cp)) (splitlines (strip val)) = Inr es"
    by blast
  then show ?thesis by (simp add: split_list_def Let_def)
qed

lemma split_comment_total:
  assumes "\<And>text. \<exists>x. g text = Inr x"
  shows "\<exists>e. split_comment line g cp = Inr e"
proof -
  from split_comment_noop_total obtain t where t: "split_comment line noop cp = Inr t" by blast
  show ?thesis
  proof (cases "c_value t")
    case None
    with t show ?thesis by (simp add: split_comment_natural [of line g cp])
  next
    case (Some tx)
    from assms obtain x where "g tx = Inr x" by blast
    with t Some show ?thesis by (simp add: split_comment_natural [of line g cp])
  qed
qed

lemma split_items_total:
  assumes "sep \<noteq> []" and "\<And>s. \<exists>y. f s = Inr y"
  shows "\<exists>xs. split_items sep f text = Inr xs"
proof -
  from mapM_total [of "filter (\<lambda>v. v \<noteq> []) (split_on sep [] text)" "\<lambda>v. f (strip v)"] assms(2)
  obtain xs where "mapM (\<lambda>v. f (strip v)) (filter (\<lambda>v. v \<noteq> []) (split_on sep [] text)) = Inr xs"
    by blast
  with assms(1) show ?thesis by (simp add: split_items_def py_split_def)
qed

text \<open>
  C5, as stated, fails: the empty pieces are dropped before the pieces are trimmed, not
  after, so a piece of blanks stays and becomes an empty element.  For \<open>a, ,b\<close> the
  entry is \<open>a\<close>, the empty string and \<open>b\<close>, where trimming each piece and then
  dropping the empty ones gives \<open>a\<close> and \<open>b\<close>.
\<close>

theorem split_list_blank_piece_counterexample:
  "split_list ''a, ,b'' '','' noop True ''#;''
     = Inr \<lparr>cl_data = [\<lparr>c_value = Some [''a'', [], ''b''], c_comment = None\<rparr>], cl_comment = None\<rparr>
   \<and> filter (\<lambda>v. v \<noteq> []) (map strip (split_on '','' [] ''a, ,b'')) = [''a'', ''b'']"
  by code_simp

text \<open>
  C5, amended: when \<open>split_list\<close> with \<open>subsplit_dangling\<close> returns, its result has one
  entry for each line of the stripped input; the entry has the comment that the
  comment splitter finds in the line, and no value when the line is only a comment;
  otherwise its value is made from the text the comment splitter leaves, by splitting
  it on \<open>sep\<close>, dropping the empty pieces, trimming the others and applying
  \<open>coerce_fn\<close> to each.  It returns whenever \<open>sep\<close> is not empty and \<open>coerce_fn\<close>
  does not raise.
\<close>

theorem split_list_entries:
  "(split_list val sep f True cp = Inr cl \<longrightarrow>
      length (cl_data cl) = length (splitlines (strip val))
      \<and> (\<forall>i<length (cl_data cl).
            \<exists>t. split_comment (splitlines (strip val) ! i) noop (replace_del sep cp) = Inr t
               \<and> c_comment (cl_data cl ! i) = c_comment t
               \<and> (case c_value t of
                     None \<Rightarrow> c_value (cl_data cl ! i) = None
                   | Some text \<Rightarrow>
                       \<exists>xs. c_value (cl_data cl ! i) = Some xs \<and> sep \<noteq> []
                          \<and> mapM (\<lambda>v. f (strip v)) (filter (\<lambda>v. v \<noteq> []) (split_on sep [] text))
                              = Inr xs)))
   \<and> (sep \<noteq> [] \<and> (\<forall>s. \<exists>y. f s = Inr y) \<longrightarrow> (\<exists>cl. split_list val sep f True cp = Inr cl))"
proof (intro conjI impI allI)
  assume a: "split_list val sep f True cp = Inr cl"
  from split_list_lines [OF a] show "length (cl_data cl) = length (splitlines (strip val))"
    by blast
next
  fix i
  assume a: "split_list val sep f True cp = Inr cl" and i: "i < length (cl_data cl)"
  let ?line = "splitlines (strip val) ! i"
  from split_list_lines [OF a] i
  have "split_comment ?line (split_items sep f) (replace_del sep cp) = Inr (cl_data cl ! i)"
    by simp
  from split_comment_entry [OF this] obtain t
    where t: "split_comment ?line noop (replace_del sep cp) = Inr t"
      and c: "c_comment (cl_data cl ! i) = c_comment t"
      and v: "case c_value t of
                None \<Rightarrow> c_value (cl_data cl ! i) = None
              | Some text \<Rightarrow> \<exists>x. split_items sep f text = Inr x \<and> c_value (cl_data cl ! i) = Some x"
    by blast
  from v have "case c_value t of
                 None \<Rightarrow> c_value (cl_data cl ! i) = None
               | Some text \<Rightarrow>
                   \<exists>xs. c_value (cl_data cl ! i) = Some xs \<and> sep \<noteq> []
                      \<and> mapM (\<lambda>v. f (strip v)) (filter (\<lambda>v. v \<noteq> []) (split_on sep [] text)) = Inr xs"
    by (auto simp: split_items_def py_split_def split: option.splits if_splits)
  with t c show "\<exists>t. split_comment ?line noop (replace_del sep cp) = Inr t
               \<and> c_comment (cl_data cl ! i) = c_comment t
               \<and> (case c_value t of
                     None \<Rightarrow> c_value (cl_data cl ! i) = None
                   | Some text \<Rightarrow>
                       \<exists>xs. c_value (cl_data cl ! i) = Some xs \<and> sep \<noteq> []
                          \<and> mapM (\<lambda>v. f (strip v)) (filter (\<lambda>v. v \<noteq> []) (split_on sep [] text))
                              = Inr xs)"
    by blast
next
  assume a: "sep \<noteq> [] \<and> (\<forall>s. \<exists>y. f s = Inr y)"
  then have "\<And>text. \<exists>xs. split_items sep f text = Inr xs"
    by (simp add: split_items_total)
  then have "\<And>l. \<exists>e. split_comment l (split_items sep f) (replace_del sep cp) = Inr e"
    by (rule split_comment_total)
  then show "\<exists>cl. split_list val sep f True cp = Inr cl"
    using split_list_total [of val True sep f cp] by simp
qed

theorem split_list_entries_witness:
  "length (cl_data \<lparr>cl_data = [\<lparr>c_value = Some [''a'', ''b'', ''c''], c_comment = None\<rparr>],
                    cl_comment = None\<rparr>)
     = length (splitlines (strip ''a, b ,c''))
   \<and> (\<exists>t. split_comment (splitlines (strip ''a, b ,c'') ! 0) noop (replace_del '','' ''#;'') = Inr t
          \<and> (case c_value t of
                None \<Rightarrow> False
              | Some text \<Rightarrow>
                  mapM (\<lambda>v. noop (strip v)) (filter (\<lambda>v. v \<noteq> []) (split_on '','' [] text))
                  = Inr [''a'', ''b'', ''c'']))
   \<and> (\<exists>cl. split_list ''a, b ,c'' '','' noop True ''#;'' = Inr (cl :: string CommentedList))"
proof -
  let ?cl = "\<lparr>cl_data = [\<lparr>c_value = Some [''a'', ''b'', ''c''], c_comment = None\<rparr>],
              cl_comment = None\<rparr> :: string CommentedList"
  note t = split_list_entries [where val = "''a, b ,c''" and sep = "'',''" and f = noop
                                 and cp = "''#;''" and cl = ?cl]
  have h1: "split_list ''a, b ,c'' '','' noop True ''#;'' = Inr ?cl" by code_simp
  have h2: "'','' \<noteq> [] \<and> (\<forall>s. \<exists>y. (noop s :: exn + string) = Inr y)" by (simp add: noop_def)
  have i: "0 < length (cl_data ?cl)" by simp
  from t h1 have 1: "length (cl_data ?cl) = length (splitlines (strip ''a, b ,c''))" by blast
  from t h1 i obtain t0 where
    a: "split_comment (splitlines (strip ''a, b ,c'') ! 0) noop (replace_del '','' ''#;'') = Inr t0"
    and b: "case c_value t0 of
              None \<Rightarrow> c_value (cl_data ?cl ! 0) = None
            | Some text \<Rightarrow>
                \<exists>xs. c_value (cl_data ?cl ! 0) = Some xs \<and> '','' \<noteq> []
                   \<and> mapM (\<lambda>v. noop (strip v)) (filter (\<lambda>v. v \<noteq> []) (split_on '','' [] text)) = Inr xs"
    by blast
  from b have "case c_value t0 of
                 None \<Rightarrow> False
               | Some text \<Rightarrow>
                   mapM (\<lambda>v. noop (strip v)) (filter (\<lambda>v. v \<noteq> []) (split_on '','' [] text))
                   = Inr [''a'', ''b'', ''c'']"
    by (auto split: option.splits)
  with a have 2: "\<exists>t. split_comment (splitlines (strip ''a, b ,c'') ! 0) noop (replace_del '','' ''#;'') = Inr t
          \<and> (case c_value t of
                None \<Rightarrow> False
              | Some text \<Rightarrow>
                  mapM (\<lambda>v. noop (strip v)) (filter (\<lambda>v. v \<noteq> []) (split_on '','' [] text))
                  = Inr [''a'', ''b'', ''c''])"
    by blast
  from t h2 have 3: "\<exists>cl. split_list ''a, b ,c'' '','' noop True ''#;'' = Inr (cl :: string CommentedList)"
    by blast
  from 1 2 3 show ?thesis by blast
qed

text \<open>
  C7, as stated, fails in two ways.  A blank line between two lines is a line of the
  input, and its entry has no element at all.  And the lines are counted after the
  input has been stripped: an input of two lines whose first line is blank has one
  line left, the separator is not extended, and that line is split on it.
\<close>

theorem split_list_blank_line_counterexample:
  "splitlines (strip (''a'' @ [CHR 0x0A, CHR 0x0A] @ ''b'')) = [''a'', [], ''b'']
   \<and> split_list (''a'' @ [CHR 0x0A, CHR 0x0A] @ ''b'') '','' noop False ''#;''
     = Inr \<lparr>cl_data = [\<lparr>c_value = Some [''a''], c_comment = None\<rparr>,
                        \<lparr>c_value = Some [], c_comment = None\<rparr>,
                        \<lparr>c_value = Some [''b''], c_comment = None\<rparr>],
            cl_comment = None\<rparr>
   \<and> splitlines (CHR 0x0A # ''a,b'') = [[], ''a,b'']
   \<and> splitlines (strip (CHR 0x0A # ''a,b'')) = [''a,b'']
   \<and> split_list (CHR 0x0A # ''a,b'') '','' noop False ''#;''
     = Inr \<lparr>cl_data = [\<lparr>c_value = Some [''a'', ''b''], c_comment = None\<rparr>], cl_comment = None\<rparr>"
  by code_simp

text \<open>
  C7, amended: without \<open>subsplit_dangling\<close>, for an input whose stripped text has
  more than one line, when \<open>split_list\<close> returns, its result has one entry for each
  line of the stripped text; the entry has the comment that the comment splitter finds
  in the line; a line that is only a comment has no value, a line with no text has no
  element, and every other line has exactly one element, \<open>coerce_fn\<close> of the whole
  text the comment splitter leaves; and it returns whenever \<open>coerce_fn\<close> does not
  raise, whatever \<open>sep\<close> is.  For an input whose stripped text has at most one line
  the flag changes nothing: the result is that of \<open>split_list\<close> with
  \<open>subsplit_dangling\<close>.
\<close>

theorem split_list_no_subsplit:
  "(1 < length (splitlines (strip val)) \<longrightarrow>
     (split_list val sep f False cp = Inr cl \<longrightarrow>
        length (cl_data cl) = length (splitlines (strip val))
        \<and> (\<forall>i<length (cl_data cl).
              \<exists>t. split_comment (splitlines (strip val) ! i) noop (replace_del sep cp) = Inr t
                 \<and> c_comment (cl_data cl ! i) = c_comment t
                 \<and> (case c_value t of
                       None \<Rightarrow> c_value (cl_data cl ! i) = None
                     | Some text \<Rightarrow>
                         if text = [] then c_value (cl_data cl ! i) = Some []
                         else \<exists>x. f text = Inr x \<and> c_value (cl_data cl ! i) = Some [x])))
     \<and> ((\<forall>s. \<exists>y. f s = Inr y) \<longrightarrow> (\<exists>cl. split_list val sep f False cp = Inr cl)))
   \<and> (\<not> 1 < length (splitlines (strip val)) \<longrightarrow>
        split_list val sep f False cp = split_list val sep f True cp)"
proof (intro conjI impI allI)
  assume m: "1 < length (splitlines (strip val))" and a: "split_list val sep f False cp = Inr cl"
  from split_list_lines [OF a] show "length (cl_data cl) = length (splitlines (strip val))"
    by blast
next
  fix i
  assume m: "1 < length (splitlines (strip val))" and a: "split_list val sep f False cp = Inr cl"
    and i: "i < length (cl_data cl)"
  let ?line = "splitlines (strip val) ! i"
  from split_list_lines [OF a] m i
  have len: "length (cl_data cl) = length (splitlines (strip val))"
    and e: "split_comment ?line (split_items (sep @ [CHR 0x0A]) f) (replace_del sep cp) = Inr (cl_data cl ! i)"
    by simp_all
  from len i have "?line \<in> set (splitlines (strip val))" by simp
  then have nl: "CHR 0x0A \<notin> set ?line" by (rule line_no_newline)
  from split_comment_entry [OF e] obtain t
    where t: "split_comment ?line noop (replace_del sep cp) = Inr t"
      and c: "c_comment (cl_data cl ! i) = c_comment t"
      and v: "case c_value t of
                None \<Rightarrow> c_value (cl_data cl ! i) = None
              | Some text \<Rightarrow> \<exists>x. split_items (sep @ [CHR 0x0A]) f text = Inr x
                                \<and> c_value (cl_data cl ! i) = Some x"
    by blast
  have "case c_value t of
          None \<Rightarrow> c_value (cl_data cl ! i) = None
        | Some text \<Rightarrow>
            if text = [] then c_value (cl_data cl ! i) = Some []
            else \<exists>x. f text = Inr x \<and> c_value (cl_data cl ! i) = Some [x]"
  proof (cases "c_value t")
    case None
    with v show ?thesis by simp
  next
    case (Some tx)
    from split_comment_text [OF t Some] nl have "strip tx = tx" "CHR 0x0A \<notin> set tx"
      by auto
    from split_items_whole [OF this(2) this(1), of sep f] v Some show ?thesis
      by (auto split: if_splits sum.splits)
  qed
  with t c show "\<exists>t. split_comment ?line noop (replace_del sep cp) = Inr t
                 \<and> c_comment (cl_data cl ! i) = c_comment t
                 \<and> (case c_value t of
                       None \<Rightarrow> c_value (cl_data cl ! i) = None
                     | Some text \<Rightarrow>
                         if text = [] then c_value (cl_data cl ! i) = Some []
                         else \<exists>x. f text = Inr x \<and> c_value (cl_data cl ! i) = Some [x])"
    by blast
next
  assume m: "1 < length (splitlines (strip val))" and a: "\<forall>s. \<exists>y. f s = Inr y"
  have "sep @ [CHR 0x0A] \<noteq> []" by simp
  from split_items_total [OF this] a
  have "\<And>text. \<exists>xs. split_items (sep @ [CHR 0x0A]) f text = Inr xs" by blast
  then have "\<And>l. \<exists>e. split_comment l (split_items (sep @ [CHR 0x0A]) f) (replace_del sep cp) = Inr e"
    by (rule split_comment_total)
  then show "\<exists>cl. split_list val sep f False cp = Inr cl"
    using split_list_total [of val False sep f cp] m by simp
next
  assume "\<not> 1 < length (splitlines (strip val))"
  then show "split_list val sep f False cp = split_list val sep f True cp"
    by (simp add: split_list_def Let_def)
qed

theorem split_list_no_subsplit_witness:
  "length (cl_data \<lparr>cl_data = [\<lparr>c_value = Some [''a,b''], c_comment = None\<rparr>,
                               \<lparr>c_value = Some [''c,d''], c_comment = Some ''x''\<rparr>],
                    cl_comment = None\<rparr>)
     = length (splitlines (strip (''a,b'' @ [CHR 0x0A] @ ''c,d # x'')))
   \<and> (\<exists>t. split_comment (splitlines (strip (''a,b'' @ [CHR 0x0A] @ ''c,d # x'')) ! 1) noop
              (replace_del '','' ''#;'') = Inr t
          \<and> c_comment t = Some ''x''
          \<and> (case c_value t of
                None \<Rightarrow> False
              | Some text \<Rightarrow> text \<noteq> [] \<and> noop text = (Inr ''c,d'' :: exn + string)))
   \<and> (\<exists>cl. split_list (''a,b'' @ [CHR 0x0A] @ ''c,d # x'') '','' noop False ''#;''
              = Inr (cl :: string CommentedList))
   \<and> split_list (CHR 0x0A # ''a,b'') '','' noop False ''#;''
     = Inr \<lparr>cl_data = [\<lparr>c_value = Some [''a'', ''b''], c_comment = None\<rparr>], cl_comment = None\<rparr>"
proof -
  let ?v = "''a,b'' @ [CHR 0x0A] @ ''c,d # x''"
  let ?cl = "\<lparr>cl_data = [\<lparr>c_value = Some [''a,b''], c_comment = None\<rparr>,
                          \<lparr>c_value = Some [''c,d''], c_comment = Some ''x''\<rparr>],
              cl_comment = None\<rparr> :: string CommentedList"
  note t = split_list_no_subsplit [where val = ?v and sep = "'',''" and f = noop
                                     and cp = "''#;''" and cl = ?cl]
  have h0: "1 < length (splitlines (strip ?v))" by code_simp
  have h1: "split_list ?v '','' noop False ''#;'' = Inr ?cl" by code_simp
  have h2: "\<forall>s. \<exists>y. (noop s :: exn + string) = Inr y" by (simp add: noop_def)
  have i: "1 < length (cl_data ?cl)" by simp
  from t h0 h1 have 1: "length (cl_data ?cl) = length (splitlines (strip ?v))" by blast
  from t h0 h1 i obtain t1 where
    a: "split_comment (splitlines (strip ?v) ! 1) noop (replace_del '','' ''#;'') = Inr t1"
    and c: "c_comment (cl_data ?cl ! 1) = c_comment t1"
    and b: "case c_value t1 of
              None \<Rightarrow> c_value (cl_data ?cl ! 1) = None
            | Some text \<Rightarrow>
                if text = [] then c_value (cl_data ?cl ! 1) = Some []
                else \<exists>x. noop text = Inr x \<and> c_value (cl_data ?cl ! 1) = Some [x]"
    by blast
  from c have c': "c_comment t1 = Some ''x''" by simp
  from b have "case c_value t1 of
                 None \<Rightarrow> False
               | Some text \<Rightarrow> text \<noteq> [] \<and> noop text = (Inr ''c,d'' :: exn + string)"
    by (auto split: option.splits if_splits)
  with a c' have 2: "\<exists>t. split_comment (splitlines (strip ?v) ! 1) noop (replace_del '','' ''#;'') = Inr t
          \<and> c_comment t = Some ''x''
          \<and> (case c_value t of
                None \<Rightarrow> False
              | Some text \<Rightarrow> text \<noteq> [] \<and> noop text = (Inr ''c,d'' :: exn + string))"
    by blast
  from t h0 h2 have 3: "\<exists>cl. split_list ?v '','' noop False ''#;'' = Inr (cl :: string CommentedList)"
    by blast
  have h3: "\<not> 1 < length (splitlines (strip (CHR 0x0A # ''a,b'')))" by code_simp
  have h4: "split_list (CHR 0x0A # ''a,b'') '','' noop True ''#;''
            = Inr \<lparr>cl_data = [\<lparr>c_value = Some [''a'', ''b''], c_comment = None\<rparr>], cl_comment = None\<rparr>"
    by code_simp
  from h3 split_list_no_subsplit [where val = "CHR 0x0A # ''a,b''" and sep = "'',''" and f = noop
                                    and cp = "''#;''"]
  have "split_list (CHR 0x0A # ''a,b'') '','' noop False ''#;''
        = split_list (CHR 0x0A # ''a,b'') '','' noop True ''#;''"
    by blast
  with h4 have 4: "split_list (CHR 0x0A # ''a,b'') '','' noop False ''#;''
     = Inr \<lparr>cl_data = [\<lparr>c_value = Some [''a'', ''b''], c_comment = None\<rparr>], cl_comment = None\<rparr>"
    by simp
  from 1 2 3 4 show ?thesis by blast
qed

end
